theory Spec2Isabelle
  imports Complex_Main "HOL-Library.Multiset" "HOL-Library.AList"
begin

section \<open>Python values used by the pipeline\<close>

text \<open>
  The program is Python. Exceptions are values of \<open>py_error\<close>; a function that can raise
  returns \<open>py_error + 'a\<close> with \<open>Inl\<close> for the exception. Python integers are \<open>int\<close>,
  strings are \<open>string\<close>, lists are lists.
\<close>

datatype py_error = IndexError | KeyError | ValueError

text \<open>A list of results evaluated in order, as in a list comprehension: the first exception wins.\<close>

fun collect :: "(py_error + 'a) list \<Rightarrow> py_error + 'a list" where
  "collect [] = Inr []"
| "collect (Inl e # rest) = Inl e"
| "collect (Inr v # rest) = (case collect rest of Inl e \<Rightarrow> Inl e | Inr vs \<Rightarrow> Inr (v # vs))"

text \<open>\<open>xs[i]\<close> on a list: a negative index counts from the end, an index out of range raises.\<close>

definition py_index :: "'a list \<Rightarrow> int \<Rightarrow> py_error + 'a" where
  "py_index xs i =
     (let n = int (length xs); j = (if i < 0 then i + n else i)
      in if 0 \<le> j \<and> j < n then Inr (xs ! nat j) else Inl IndexError)"

text \<open>\<open>xs[:k]\<close>: a negative bound counts from the end, and every bound is clipped to the list.\<close>

definition py_slice_to :: "'a list \<Rightarrow> int \<Rightarrow> 'a list" where
  "py_slice_to xs k = (if k < 0 then take (nat (int (length xs) + k)) xs else take (nat k) xs)"

text \<open>
  \<open>numpy.delete(arr, i)\<close> with an integer \<open>i\<close> on a one-dimensional input of \<open>N\<close> entries:
  \<open>i < -N\<close> or \<open>i \<ge> N\<close> raises IndexError, a negative \<open>i\<close> counts from the end, and the
  result is a copy without position \<open>i\<close>. The entries themselves pass through the array
  unchanged (numpy drops trailing NUL characters of strings; texts and filenames have none).
\<close>

definition np_delete :: "'a list \<Rightarrow> int \<Rightarrow> py_error + 'a list" where
  "np_delete arr i =
     (let n = int (length arr)
      in if i < - n \<or> n \<le> i then Inl IndexError
         else (let j = nat (if i < 0 then i + n else i)
               in Inr (take j arr @ drop (Suc j) arr)))"

section \<open>The leave-one-out split\<close>

text \<open>The six lists \<open>loo_split\<close> returns, in the order of its \<open>return\<close> statement.\<close>

record loo_result =
  split_X_dev :: "string list"
  split_X_test :: "string list"
  split_y_dev :: "int list"
  split_y_test :: "int list"
  split_groups_dev :: "string list"
  split_groups_test :: "string list"

text \<open>
  \<open>AuthorshipVerification.loo_split\<close>: \<open>filenames[i]\<close> is read first (for the progress
  message), then the three parallel lists lose position \<open>i\<close> through \<open>np.delete\<close>.
\<close>

definition loo_split ::
  "int \<Rightarrow> string list \<Rightarrow> int list \<Rightarrow> string \<Rightarrow> int \<Rightarrow> string list \<Rightarrow> py_error + loo_result" where
  "loo_split i X y doc ylabel filenames =
     (case py_index filenames i of
        Inl e \<Rightarrow> Inl e
      | Inr doc_name \<Rightarrow>
          (case np_delete X i of
             Inl e \<Rightarrow> Inl e
           | Inr X_dev \<Rightarrow>
               (case np_delete y i of
                  Inl e \<Rightarrow> Inl e
                | Inr y_dev \<Rightarrow>
                    (case np_delete filenames i of
                       Inl e \<Rightarrow> Inl e
                     | Inr groups_dev \<Rightarrow>
                         Inr \<lparr>split_X_dev = X_dev, split_X_test = [doc],
                              split_y_dev = y_dev, split_y_test = [ylabel],
                              split_groups_dev = groups_dev, split_groups_test = [doc_name]\<rparr>))))"

section \<open>Column ranges of the stacked feature matrix\<close>

text \<open>
  A per-view feature set is either a Python list (flat, or a list of rows), which the loop
  first turns into an array with \<open>np.array\<close>, or an array (dense or sparse), of which only
  the shape is read. \<open>np.array\<close> of an empty list has shape \<open>(0,)\<close>, of equally long rows
  shape \<open>(rows, columns)\<close>; rows of different lengths are refused.
\<close>

datatype feature_set = PyList1 "real list" | PyList2 "real list list" | NdArray "nat list"

definition np_array_shape :: "feature_set \<Rightarrow> py_error + nat list" where
  "np_array_shape fset =
     (case fset of
        PyList1 xs \<Rightarrow> Inr [length xs]
      | PyList2 rows \<Rightarrow>
          (case rows of
             [] \<Rightarrow> Inr [0]
           | r # rs \<Rightarrow> if \<forall>r' \<in> set rs. length r' = length r
                       then Inr [length rows, length r] else Inl ValueError)
      | NdArray sh \<Rightarrow> Inr sh)"

text \<open>
  The body of the loop up to \<open>feature_shape = fset.shape[1]\<close>: a one-dimensional array is
  reshaped to a single column by \<open>reshape(-1, 1)\<close>; a zero-dimensional one has no
  \<open>shape[1]\<close>.
\<close>

definition feature_shape :: "feature_set \<Rightarrow> py_error + nat" where
  "feature_shape fset =
     (case np_array_shape fset of
        Inl e \<Rightarrow> Inl e
      | Inr sh \<Rightarrow>
          (let sh' = (if length sh = 1 then [hd sh, 1] else sh)
           in if length sh' < 2 then Inl IndexError else Inr (sh' ! 1)))"

text \<open>
  \<open>AuthorshipVerification._compute_feature_set_idx\<close>. The dictionary keyed by the view
  is an association list in insertion order; \<open>AList.update\<close> overwrites the value of a
  key already present in place and appends a new key, as a Python \<open>dict\<close> does.
\<close>

fun compute_feature_set_idx_loop ::
  "('v \<times> feature_set) list \<Rightarrow> nat \<Rightarrow> nat \<Rightarrow> ('v \<times> nat \<times> nat) list
     \<Rightarrow> py_error + ('v \<times> nat \<times> nat) list" where
  "compute_feature_set_idx_loop [] start_idx end_idx feature_sets_idxs = Inr feature_sets_idxs"
| "compute_feature_set_idx_loop ((vect, fset) # rest) start_idx end_idx feature_sets_idxs =
     (case feature_shape fset of
        Inl e \<Rightarrow> Inl e
      | Inr feature_shape' \<Rightarrow>
          (let end_idx' = end_idx + feature_shape'
           in compute_feature_set_idx_loop rest end_idx' end_idx'
                (AList.update vect (start_idx, end_idx') feature_sets_idxs)))"

definition compute_feature_set_idx ::
  "'v list \<Rightarrow> feature_set list \<Rightarrow> py_error + ('v \<times> nat \<times> nat) list" where
  "compute_feature_set_idx vectorizers feature_sets_dev =
     compute_feature_set_idx_loop (zip vectorizers feature_sets_dev) 0 0 []"

text \<open>The consecutive intervals of the given widths, starting at \<open>s\<close>.\<close>

fun ranges_from :: "nat \<Rightarrow> nat list \<Rightarrow> (nat \<times> nat) list" where
  "ranges_from s [] = []"
| "ranges_from s (w # ws) = (s, s + w) # ranges_from (s + w) ws"

section \<open>Python strings\<close>

text \<open>
  A string is a list of characters; \<open>char\<close> stands for the code points below 256.
  \<open>s.endswith(suffix)\<close>, \<open>s.find(sub)\<close> (the first index at which \<open>sub\<close> occurs, or
  \<open>-1\<close>), \<open>sub in s\<close>, \<open>s.rstrip()\<close> (trailing whitespace removed) and \<open>s.lower()\<close>.
\<close>

definition py_endswith :: "string \<Rightarrow> string \<Rightarrow> bool" where
  "py_endswith s suffix = (length suffix \<le> length s \<and> drop (length s - length suffix) s = suffix)"

fun py_find_from :: "string \<Rightarrow> string \<Rightarrow> nat \<Rightarrow> int" where
  "py_find_from sub [] k = (if sub = [] then int k else - 1)"
| "py_find_from sub (c # cs) k =
     (if take (length sub) (c # cs) = sub then int k else py_find_from sub cs (Suc k))"

definition py_find :: "string \<Rightarrow> string \<Rightarrow> int" where
  "py_find s sub = py_find_from sub s 0"

definition py_in :: "string \<Rightarrow> string \<Rightarrow> bool" where
  "py_in sub s = (py_find s sub \<noteq> - 1)"

definition py_isspace :: "char \<Rightarrow> bool" where
  "py_isspace c = (c \<in> set [CHR 0x09, CHR 0x0A, CHR 0x0B, CHR 0x0C, CHR 0x0D,
                             CHR 0x1C, CHR 0x1D, CHR 0x1E, CHR 0x1F, CHR 0x20, CHR 0x85, CHR 0xA0])"

definition py_rstrip :: "string \<Rightarrow> string" where
  "py_rstrip s = rev (dropWhile py_isspace (rev s))"

definition py_lower_char :: "char \<Rightarrow> char" where
  "py_lower_char c =
     (let n = (of_char c :: nat)
      in if (65 \<le> n \<and> n \<le> 90) \<or> (192 \<le> n \<and> n \<le> 222 \<and> n \<noteq> 215)
         then (case c of Char b0 b1 b2 b3 b4 b5 b6 b7 \<Rightarrow> Char b0 b1 b2 b3 b4 True b6 b7)
         else c)"

definition py_lower :: "string \<Rightarrow> string" where
  "py_lower s = map py_lower_char s"

section \<open>Annotated documents and segment lookup\<close>

text \<open>
  The linguistic annotation is an external service. A span is a token range
  \<open>(start, end)\<close> of an annotated document; \<open>None\<close> and a span without tokens are falsy.
  The service is a record of the three operations the pipeline calls: the text of an
  annotated document, \<open>Doc.char_span(start, end, alignment_mode='expand')\<close>, and
  \<open>nltk.sent_tokenize\<close>.
\<close>

type_synonym span = "nat \<times> nat"

record 'd annotation =
  doc_text :: "'d \<Rightarrow> string"
  char_span :: "'d \<Rightarrow> int \<Rightarrow> int \<Rightarrow> span option"
  sent_tokenize :: "string \<Rightarrow> string list"

definition span_truthy :: "span option \<Rightarrow> bool" where
  "span_truthy sp = (case sp of None \<Rightarrow> False | Some (start, end) \<Rightarrow> start < end)"

text \<open>
  \<open>AuthorshipVerification.find_segment\<close>. Next to the span it returns, the model records the
  \<open>(start, end)\<close> offsets of every \<open>char_span\<close> call, in call order.
\<close>

definition find_segment ::
  "'d annotation \<Rightarrow> string \<Rightarrow> 'd \<Rightarrow> py_error + ((int \<times> int) list \<times> span option)" where
  "find_segment nlp segment processed_document =
     (case py_index (sent_tokenize nlp segment) 0 of
        Inl e \<Rightarrow> Inl e
      | Inr start_segment \<Rightarrow>
          (let start_idx = py_find (doc_text nlp processed_document) start_segment;
               end_idx = start_idx + int (length segment);
               processed_seg = char_span nlp processed_document start_idx end_idx
           in if \<not> span_truthy processed_seg
              then Inr ([(start_idx, end_idx), (start_idx, end_idx - 1)],
                        char_span nlp processed_document start_idx (end_idx - 1))
              else Inr ([(start_idx, end_idx)], processed_seg)))"

text \<open>An entry of the returned list: a whole annotated document, or a span (possibly \<open>None\<close>).\<close>

datatype 'd processed = ProcessedDoc 'd | ProcessedSpan "span option"

text \<open>
  \<open>AuthorshipVerification.get_processed_segments\<close>: the loop over \<open>zip(X, groups)\<close>. A key
  missing from the dictionary raises KeyError. The result pairs the list with the count
  that the function prints.
\<close>

fun get_processed_segments_loop ::
  "'d annotation \<Rightarrow> (string \<rightharpoonup> 'd) \<Rightarrow> (string \<times> string) list \<Rightarrow> nat \<Rightarrow> 'd processed list
     \<Rightarrow> py_error + ('d processed list \<times> nat)" where
  "get_processed_segments_loop nlp processed_docs [] none_count processed_X =
     Inr (processed_X, none_count)"
| "get_processed_segments_loop nlp processed_docs ((segment, grp) # rest) none_count processed_X =
     (if py_endswith grp ''_0_0''
      then (case processed_docs (py_slice_to grp (- 4)) of
              None \<Rightarrow> Inl KeyError
            | Some processed_doc \<Rightarrow>
                get_processed_segments_loop nlp processed_docs rest none_count
                  (processed_X @ [ProcessedDoc processed_doc]))
      else (let group_idx = py_find grp ''_0'';
                group_key = py_slice_to grp group_idx
            in case processed_docs group_key of
                 None \<Rightarrow> Inl KeyError
               | Some ent_doc_processed \<Rightarrow>
                   (case find_segment nlp segment ent_doc_processed of
                      Inl e \<Rightarrow> Inl e
                    | Inr (lookups, processed_segment) \<Rightarrow>
                        get_processed_segments_loop nlp processed_docs rest
                          (if \<not> span_truthy processed_segment then none_count + 1 else none_count)
                          (processed_X @ [ProcessedSpan processed_segment]))))"

definition get_processed_segments ::
  "'d annotation \<Rightarrow> (string \<rightharpoonup> 'd) \<Rightarrow> string list \<Rightarrow> string list
     \<Rightarrow> py_error + ('d processed list \<times> nat)" where
  "get_processed_segments nlp processed_docs X groups =
     get_processed_segments_loop nlp processed_docs (zip X groups) 0 []"

text \<open>
  The dictionary key the loop body derives from a group id, the outcome of one pass through
  the loop body, and the entries that the loop counts as failed.
\<close>

definition cache_key :: "string \<Rightarrow> string" where
  "cache_key grp =
     (if py_endswith grp ''_0_0'' then py_slice_to grp (- 4)
      else py_slice_to grp (py_find grp ''_0''))"

definition row_result :: "'d annotation \<Rightarrow> (string \<rightharpoonup> 'd) \<Rightarrow> string \<times> string \<Rightarrow> py_error + 'd processed" where
  "row_result nlp processed_docs row =
     (case processed_docs (cache_key (snd row)) of
        None \<Rightarrow> Inl KeyError
      | Some d \<Rightarrow>
          if py_endswith (snd row) ''_0_0'' then Inr (ProcessedDoc d)
          else (case find_segment nlp (fst row) d of
                  Inl e \<Rightarrow> Inl e
                | Inr (lookups, sp) \<Rightarrow> Inr (ProcessedSpan sp)))"

fun alignment_failed :: "'d processed \<Rightarrow> bool" where
  "alignment_failed (ProcessedDoc d) = False"
| "alignment_failed (ProcessedSpan sp) = (\<not> span_truthy sp)"

text \<open>
  A small annotation service for running the lookup on concrete inputs: a document is its
  text, every character is a token, and the first sentence is the text up to the first
  blank.
\<close>

definition plain_annotation :: "string annotation" where
  "plain_annotation =
     \<lparr>doc_text = (\<lambda>d. d),
      char_span = (\<lambda>d s e. if 0 \<le> s \<and> s < e \<and> e \<le> int (length d) then Some (nat s, nat e) else None),
      sent_tokenize = (\<lambda>s. if s = [] then [] else [takeWhile (\<lambda>c. c \<noteq> CHR '' '') s])\<rparr>"

section \<open>Evaluation of the fitted model\<close>

text \<open>
  Scores and probabilities are real numbers (rounding of floating point is not modelled);
  \<open>NaN\<close> is the value numpy gives to the median of nothing.
\<close>

datatype py_float = Finite real | NaN

text \<open>
  The fitted classifier is an external object with the two methods \<open>predict\<close> and
  \<open>predict_proba\<close>; a feature matrix is its list of rows.
\<close>

record estimator =
  predict :: "real list list \<Rightarrow> py_error + int list"
  predict_proba :: "real list list \<Rightarrow> py_error + real list list"

text \<open>
  \<open>numpy.median\<close> of a one-dimensional input: the middle entry of the sorted data, the mean
  of the two middle entries when their number is even.
\<close>

definition np_median :: "real list \<Rightarrow> py_float" where
  "np_median a =
     (let s = sort a; n = length a
      in if n = 0 then NaN
         else if odd n then Finite (s ! (n div 2))
         else Finite ((s ! (n div 2 - 1) + s ! (n div 2)) / 2))"

text \<open>
  The scikit-learn metrics as \<open>evaluate_model\<close> calls them (\<open>average='binary'\<close>, positive
  label 1, \<open>zero_division\<close> given). Each of them validates its two label vectors first:
  vectors of different lengths, and vectors without any sample, raise ValueError.
\<close>

definition check_targets :: "int list \<Rightarrow> int list \<Rightarrow> py_error + unit" where
  "check_targets y_true y_pred =
     (if length y_true \<noteq> length y_pred \<or> y_true = [] then Inl ValueError else Inr ())"

definition accuracy_score :: "int list \<Rightarrow> int list \<Rightarrow> py_error + py_float" where
  "accuracy_score y_true y_pred =
     (case check_targets y_true y_pred of
        Inl e \<Rightarrow> Inl e
      | Inr _ \<Rightarrow>
          Inr (Finite (real (length (filter (\<lambda>(t, p). t = p) (zip y_true y_pred)))
                         / real (length y_true))))"

text \<open>
  With \<open>average='binary'\<close>, more than two labels are refused, and so are two labels without
  the positive one. Precision, recall and F are \<open>tp / predicted\<close>, \<open>tp / true\<close> and
  \<open>2 tp / (true + predicted)\<close>, each replaced by \<open>zero_division\<close> when its denominator is 0.
\<close>

definition check_binary_targets :: "int list \<Rightarrow> int list \<Rightarrow> py_error + unit" where
  "check_binary_targets y_true y_pred =
     (case check_targets y_true y_pred of
        Inl e \<Rightarrow> Inl e
      | Inr _ \<Rightarrow>
          (let present_labels = remdups (y_true @ y_pred)
           in if 2 < length present_labels then Inl ValueError
              else if 1 \<notin> set present_labels \<and> 2 \<le> length present_labels then Inl ValueError
              else Inr ()))"

definition prf_divide :: "nat \<Rightarrow> nat \<Rightarrow> real \<Rightarrow> real" where
  "prf_divide numerator denominator zero_division =
     (if denominator = 0 then zero_division else real numerator / real denominator)"

definition precision_recall_fscore ::
  "int list \<Rightarrow> int list \<Rightarrow> real \<Rightarrow> py_error + (real \<times> real \<times> real)" where
  "precision_recall_fscore y_true y_pred zero_division =
     (case check_binary_targets y_true y_pred of
        Inl e \<Rightarrow> Inl e
      | Inr _ \<Rightarrow>
          (let tp_sum = length (filter (\<lambda>(t, p). t = 1 \<and> p = 1) (zip y_true y_pred));
               pred_sum = length (filter (\<lambda>p. p = 1) y_pred);
               true_sum = length (filter (\<lambda>t. t = 1) y_true)
           in Inr (prf_divide tp_sum pred_sum zero_division,
                   prf_divide tp_sum true_sum zero_division,
                   prf_divide (2 * tp_sum) (true_sum + pred_sum) zero_division)))"

definition f1_score :: "int list \<Rightarrow> int list \<Rightarrow> real \<Rightarrow> py_error + real" where
  "f1_score y_true y_pred zero_division =
     (case precision_recall_fscore y_true y_pred zero_division of
        Inl e \<Rightarrow> Inl e
      | Inr (precision, recall, f) \<Rightarrow> Inr f)"

text \<open>
  \<open>confusion_matrix(y_true, y_pred).ravel()\<close>: the counts of (true label, predicted label)
  over the sorted labels that occur, row by row.
\<close>

definition confusion_matrix_ravel :: "int list \<Rightarrow> int list \<Rightarrow> py_error + nat list" where
  "confusion_matrix_ravel y_true y_pred =
     (case check_targets y_true y_pred of
        Inl e \<Rightarrow> Inl e
      | Inr _ \<Rightarrow>
          (let labels = sort (remdups (y_true @ y_pred))
           in Inr (concat (map (\<lambda>a. map (\<lambda>b. length (filter (\<lambda>(t, p). t = a \<and> p = b)
                                                      (zip y_true y_pred))) labels) labels))))"

text \<open>
  \<open>classification_report(y_true, y_pred, zero_division)\<close>, whose text is printed: for every
  label that occurs, in sorted order, its precision, recall, F and support (the averages
  printed below these lines are computed from them).
\<close>

definition classification_report ::
  "int list \<Rightarrow> int list \<Rightarrow> real \<Rightarrow> py_error + (int \<times> real \<times> real \<times> real \<times> nat) list" where
  "classification_report y_true y_pred zero_division =
     (case check_targets y_true y_pred of
        Inl e \<Rightarrow> Inl e
      | Inr _ \<Rightarrow>
          Inr (map (\<lambda>a.
                 (let tp_sum = length (filter (\<lambda>(t, p). t = a \<and> p = a) (zip y_true y_pred));
                      pred_sum = length (filter (\<lambda>p. p = a) y_pred);
                      true_sum = length (filter (\<lambda>t. t = a) y_true)
                  in (a, prf_divide tp_sum pred_sum zero_division,
                         prf_divide tp_sum true_sum zero_division,
                         prf_divide (2 * tp_sum) (true_sum + pred_sum) zero_division,
                         true_sum)))
               (sort (remdups (y_true @ y_pred)))))"

text \<open>
  The two attributes of the \<open>AuthorshipVerification\<close> object that \<open>evaluate_model\<close> writes,
  and what one evaluation yields: the returned tuple (accuracy, F1, confusion tally,
  posterior) together with the precision and recall that are printed.
\<close>

record verifier =
  self_accuracy :: py_float
  self_posterior_proba :: py_float

record evaluation =
  ev_accuracy :: py_float
  ev_f1 :: real
  ev_precision :: real
  ev_recall :: real
  ev_cf :: "nat list"
  ev_posterior_proba :: py_float

text \<open>
  The list comprehension \<open>[prob[class_idx] for prob, class_idx in zip(probabilities, y_pred)]\<close>.
\<close>

definition predicted_class_probabilities :: "real list list \<Rightarrow> int list \<Rightarrow> py_error + real list" where
  "predicted_class_probabilities probabilities y_pred =
     collect (map (\<lambda>(prob, class_idx). py_index prob class_idx) (zip probabilities y_pred))"

text \<open>
  \<open>y_test * X_test.shape[0]\<close>, with \<open>y_test\<close> a Python list as annotated: the list repeated
  once per row of \<open>X_test\<close>.
\<close>

definition broadcast_labels :: "int list \<Rightarrow> real list list \<Rightarrow> int list" where
  "broadcast_labels y_test X_test = concat (replicate (length X_test) y_test)"

text \<open>
  \<open>AuthorshipVerification.evaluate_model\<close>, statement by statement: the label vector, the
  predictions, the posterior (with \<open>return_proba\<close> unset the posterior of the previous
  evaluation is kept), accuracy, F1, precision and recall, the confusion tally, and the
  classification report printed last. An exception of any call ends the evaluation.
\<close>

definition evaluate_model ::
  "verifier \<Rightarrow> estimator \<Rightarrow> real list list \<Rightarrow> int list \<Rightarrow> bool
     \<Rightarrow> py_error + (verifier \<times> evaluation)" where
  "evaluate_model self clf X_test y_test return_proba =
     (let y_test' = broadcast_labels y_test X_test
      in case predict clf X_test of
           Inl e \<Rightarrow> Inl e
         | Inr y_pred \<Rightarrow>
             (case (if return_proba
                    then (case predict_proba clf X_test of
                            Inl e \<Rightarrow> Inl e
                          | Inr probabilities \<Rightarrow>
                              (case predicted_class_probabilities probabilities y_pred of
                                 Inl e \<Rightarrow> Inl e
                               | Inr ps \<Rightarrow> Inr (self\<lparr>self_posterior_proba := np_median ps\<rparr>)))
                    else Inr self) of
                Inl e \<Rightarrow> Inl e
              | Inr self1 \<Rightarrow>
                  (case accuracy_score y_test' y_pred of
                     Inl e \<Rightarrow> Inl e
                   | Inr acc \<Rightarrow>
                       (case f1_score y_test' y_pred 1 of
                          Inl e \<Rightarrow> Inl e
                        | Inr f1 \<Rightarrow>
                            (case precision_recall_fscore y_test' y_pred 1 of
                               Inl e \<Rightarrow> Inl e
                             | Inr (precision, recall, f) \<Rightarrow>
                                 (case confusion_matrix_ravel y_test' y_pred of
                                    Inl e \<Rightarrow> Inl e
                                  | Inr cf \<Rightarrow>
                                      (case classification_report y_test' y_pred 1 of
                                         Inl e \<Rightarrow> Inl e
                                       | Inr report \<Rightarrow>
                                           (let self2 = self1\<lparr>self_accuracy := acc\<rparr>
                                            in Inr (self2,
                                                    \<lparr>ev_accuracy = self_accuracy self2,
                                                     ev_f1 = f1,
                                                     ev_precision = precision,
                                                     ev_recall = recall,
                                                     ev_cf = cf,
                                                     ev_posterior_proba =
                                                       self_posterior_proba self2\<rparr>)))))))))"

text \<open>
  A classifier for concrete runs: class 1 when the first feature (0 for an empty row) is
  below one half, with the first feature as the probability of class 0.
\<close>

definition threshold_clf :: estimator where
  "threshold_clf =
     \<lparr>predict = (\<lambda>X. Inr (map (\<lambda>row. if sum_list (take 1 row) < 1 / 2 then 1 else 0) X)),
      predict_proba =
        (\<lambda>X. Inr (map (\<lambda>row. [sum_list (take 1 row), 1 - sum_list (take 1 row)]) X))\<rparr>"

section \<open>Reporting a held-out unit\<close>

text \<open>
  A line of the results file: the header, or a record with the five columns
  \<open>Target author\<close>, \<open>Document test\<close>, \<open>Accuracy\<close>, \<open>Proba\<close> and \<open>Features\<close>.
\<close>

record 'v result_row =
  col_target_author :: string
  col_document_test :: string
  col_accuracy :: py_float
  col_proba :: py_float
  col_features :: "'v list"

datatype 'v csv_line = Header | Row "'v result_row"

text \<open>
  \<open>AuthorshipVerification.save_results\<close>: the file is opened for appending, the header is
  written when the file is empty, then the record.
\<close>

definition save_results ::
  "string \<Rightarrow> py_float \<Rightarrow> real \<Rightarrow> py_float \<Rightarrow> nat list \<Rightarrow> string \<Rightarrow> string \<Rightarrow> 'v list
     \<Rightarrow> 'v csv_line list \<Rightarrow> 'v csv_line list" where
  "save_results target_author accuracy f1 posterior_proba cf model_name doc_name features csv_file =
     (let data = \<lparr>col_target_author = target_author,
                  col_document_test = py_slice_to doc_name (- 2),
                  col_accuracy = accuracy,
                  col_proba = posterior_proba,
                  col_features = features\<rparr>
      in csv_file @ (if csv_file = [] then [Header] else []) @ [Row data])"

text \<open>
  The loop over \<open>models\<close> that ends \<open>_process_single_document\<close>, for its one model. The
  cross-validated fit of \<open>train_model\<close> is a parameter; the state is the verifier object and
  the results file. The closing message reads \<open>groups_test[0]\<close> again.
\<close>

definition train_evaluate_report ::
  "(real list list \<Rightarrow> int list \<Rightarrow> string list \<Rightarrow> py_error + estimator)
     \<Rightarrow> string \<Rightarrow> bool \<Rightarrow> real list list \<Rightarrow> real list list \<Rightarrow> int list \<Rightarrow> int list
     \<Rightarrow> string list \<Rightarrow> string list \<Rightarrow> ('v \<times> nat \<times> nat) list
     \<Rightarrow> verifier \<times> 'v csv_line list \<Rightarrow> py_error + (verifier \<times> 'v csv_line list)" where
  "train_evaluate_report train_model target save_results_flag X_dev X_test y_dev y_test
       groups_dev groups_test feature_idxs state =
     (case train_model X_dev y_dev groups_dev of
        Inl e \<Rightarrow> Inl e
      | Inr clf \<Rightarrow>
          (case evaluate_model (fst state) clf X_test y_test True of
             Inl e \<Rightarrow> Inl e
           | Inr (self', ev) \<Rightarrow>
               (case (if save_results_flag
                      then (case py_index groups_test 0 of
                              Inl e \<Rightarrow> Inl e
                            | Inr g \<Rightarrow>
                                Inr (save_results target (ev_accuracy ev) (ev_f1 ev)
                                       (ev_posterior_proba ev) (ev_cf ev) ''Logistic Regressor''
                                       (py_slice_to g (- 2)) (map fst feature_idxs) (snd state)))
                      else Inr (snd state)) of
                  Inl e \<Rightarrow> Inl e
                | Inr csv_file \<Rightarrow>
                    (case py_index groups_test 0 of
                       Inl e \<Rightarrow> Inl e
                     | Inr g \<Rightarrow> Inr (self', csv_file)))))"

section \<open>The run over the held-out units\<close>

text \<open>
  \<open>AuthorshipVerification.get_processed_documents\<close>: without the \<open>processed\<close> flag,
  \<open>max(len(doc) for doc in documents)\<close> is taken first and raises ValueError on an empty
  corpus. The annotation of the documents is a parameter.
\<close>

definition get_processed_documents ::
  "(string list \<Rightarrow> string list \<Rightarrow> py_error + (string \<rightharpoonup> 'd)) \<Rightarrow> string list \<Rightarrow> string list
     \<Rightarrow> bool \<Rightarrow> py_error + (string \<rightharpoonup> 'd)" where
  "get_processed_documents process_documents documents filenames processed =
     (if \<not> processed \<and> documents = [] then Inl ValueError
      else process_documents documents filenames)"

text \<open>
  The resolution of the held-out selector in \<open>run\<close>: with a selector, the positions of the
  filenames that contain it; without, the positions of the target author's documents.
\<close>

definition test_indices :: "string \<Rightarrow> string \<Rightarrow> string list \<Rightarrow> string list \<Rightarrow> nat list" where
  "test_indices target test_document filenames authors =
     (if test_document \<noteq> []
      then map fst (filter (\<lambda>(i, filename). py_in test_document filename)
                      (enumerate 0 filenames))
      else map fst (filter (\<lambda>(i, filename, author). py_rstrip author = target)
                      (enumerate 0 (zip filenames authors))))"

text \<open>The loop \<open>for i in test_indices\<close>: an exception in a unit ends the run.\<close>

fun run_units :: "(nat \<Rightarrow> 's \<Rightarrow> py_error + 's) \<Rightarrow> nat list \<Rightarrow> 's \<Rightarrow> py_error + 's" where
  "run_units process_unit [] state = Inr state"
| "run_units process_unit (i # rest) state =
     (case process_unit i state of
        Inl e \<Rightarrow> Inl e
      | Inr state' \<Rightarrow> run_units process_unit rest state')"

text \<open>
  \<open>AuthorshipVerification.run\<close>. The corpus loader, the annotation of the documents and the
  processing of one held-out unit are parameters; the unit transforms a state.
\<close>

definition run ::
  "(string \<Rightarrow> py_error + (string list \<times> string list \<times> string list))
     \<Rightarrow> (string list \<Rightarrow> string list \<Rightarrow> py_error + (string \<rightharpoonup> 'd))
     \<Rightarrow> (int \<Rightarrow> string list \<Rightarrow> int list \<Rightarrow> (string \<rightharpoonup> 'd) \<Rightarrow> string list \<Rightarrow> string \<Rightarrow> bool
           \<Rightarrow> 's \<Rightarrow> py_error + 's)
     \<Rightarrow> string \<Rightarrow> string \<Rightarrow> bool \<Rightarrow> bool \<Rightarrow> 's \<Rightarrow> py_error + 's" where
  "run load_dataset process_documents process_single_document target test_document
       save_results_flag test_genre state =
     (case load_dataset test_document of
        Inl e \<Rightarrow> Inl e
      | Inr (documents, authors, loaded_filenames) \<Rightarrow>
          (let filenames = map (\<lambda>filename. filename @ ''_0'') loaded_filenames;
               genres = map (\<lambda>filename. if py_in ''epistola'' (py_lower filename)
                                        then ''Trattato'' else ''Epistola'') filenames
           in case get_processed_documents process_documents documents filenames False of
                Inl e \<Rightarrow> Inl e
              | Inr processed_documents \<Rightarrow>
                  (let y = (if test_genre
                            then map (\<lambda>genre. if py_rstrip genre = ''Trattato'' then 1 else 0) genres
                            else map (\<lambda>author. if py_rstrip author = target then 1 else 0) authors)
                   in run_units
                        (\<lambda>i. process_single_document (int i) documents y processed_documents
                               filenames target save_results_flag)
                        (test_indices target test_document filenames authors) state)))"

text \<open>
  For concrete runs: a unit that appends its document name to a log, a loader that returns
  a fixed corpus, an annotation that stores each text under its name, and a training step
  that returns a given classifier.
\<close>

definition log_unit ::
  "int \<Rightarrow> string list \<Rightarrow> int list \<Rightarrow> (string \<rightharpoonup> string) \<Rightarrow> string list \<Rightarrow> string \<Rightarrow> bool
     \<Rightarrow> string list \<Rightarrow> py_error + string list" where
  "log_unit i documents y processed_documents filenames target save_results_flag state =
     (case py_index filenames i of Inl e \<Rightarrow> Inl e | Inr doc_name \<Rightarrow> Inr (state @ [doc_name]))"

definition stored_corpus ::
  "string list \<times> string list \<times> string list \<Rightarrow> string
     \<Rightarrow> py_error + (string list \<times> string list \<times> string list)" where
  "stored_corpus corpus test_document = Inr corpus"

definition annotate_by_name :: "string list \<Rightarrow> string list \<Rightarrow> py_error + (string \<rightharpoonup> string)" where
  "annotate_by_name documents filenames = Inr (map_of (zip filenames documents))"

definition fixed_model :: "estimator \<Rightarrow> real list list \<Rightarrow> int list \<Rightarrow> string list \<Rightarrow> py_error + estimator" where
  "fixed_model clf X_dev y_dev groups_dev = Inr clf"

section \<open>Properties of the leave-one-out split\<close>

lemma np_delete_in_range:
  "i < length arr \<Longrightarrow> np_delete arr (int i) = Inr (take i arr @ drop (Suc i) arr)"
  by (simp add: np_delete_def)

lemma py_index_in_range: "i < length xs \<Longrightarrow> py_index xs (int i) = Inr (xs ! i)"
  by (simp add: py_index_def)

lemma length_remove_nth: "i < length xs \<Longrightarrow> length (take i xs @ drop (Suc i) xs) = length xs - 1"
  by simp

lemma mset_remove_nth:
  "i < length xs \<Longrightarrow> mset (take i xs @ drop (Suc i) xs) = mset xs - {#xs ! i#}"
proof -
  assume lt: "i < length xs"
  have "xs = take i xs @ (xs ! i) # drop (Suc i) xs"
    using lt by (simp add: id_take_nth_drop)
  then have "mset xs = mset (take i xs @ drop (Suc i) xs) + {#xs ! i#}"
    by (metis mset.simps(2) mset_append union_mset_add_mset_right add_mset_add_single)
  then show ?thesis by simp
qed

lemma distinct_remove_nth:
  "distinct xs \<Longrightarrow> i < length xs \<Longrightarrow> xs ! i \<notin> set (take i xs @ drop (Suc i) xs)"
proof -
  assume d: "distinct xs" and lt: "i < length xs"
  have split: "xs = take i xs @ (xs ! i) # drop (Suc i) xs"
    using lt by (simp add: id_take_nth_drop)
  have "distinct (take i xs @ (xs ! i) # drop (Suc i) xs)"
    using d split by simp
  then show ?thesis by auto
qed

lemma nth_remove_nth:
  "i < length xs \<Longrightarrow> j < length xs - 1 \<Longrightarrow>
   (take i xs @ drop (Suc i) xs) ! j = (if j < i then xs ! j else xs ! Suc j)"
  by (auto simp: nth_append min_def)

text \<open>
  C3. For an index \<open>i\<close> into the pool (three parallel lists of the same length),
  \<open>loo_split\<close> returns normally; each of the three training lists is the input without
  position \<open>i\<close> (entries before \<open>i\<close> keep their position, later ones move down by one), so
  it has one entry less and, as a multiset, lost exactly one copy of the entry at \<open>i\<close>
  even when the same text occurs elsewhere; the test group is the group id at \<open>i\<close>; and
  when ids are unique per document that id is absent from the training groups.
\<close>

theorem loo_split_removes_index:
  assumes "i < length X" and "length y = length X" and "length filenames = length X"
  shows "\<exists>r. loo_split (int i) X y doc ylabel filenames = Inr r
           \<and> split_X_dev r = take i X @ drop (Suc i) X
           \<and> split_y_dev r = take i y @ drop (Suc i) y
           \<and> split_groups_dev r = take i filenames @ drop (Suc i) filenames
           \<and> length (split_X_dev r) = length X - 1
           \<and> length (split_y_dev r) = length X - 1
           \<and> length (split_groups_dev r) = length X - 1
           \<and> (\<forall>j < length X - 1. split_X_dev r ! j = (if j < i then X ! j else X ! Suc j))
           \<and> mset (split_X_dev r) = mset X - {#X ! i#}
           \<and> split_X_test r = [doc] \<and> split_y_test r = [ylabel]
           \<and> split_groups_test r = [filenames ! i]
           \<and> (distinct filenames \<longrightarrow> filenames ! i \<notin> set (split_groups_dev r))"
proof -
  let ?r = "\<lparr>split_X_dev = take i X @ drop (Suc i) X, split_X_test = [doc],
             split_y_dev = take i y @ drop (Suc i) y, split_y_test = [ylabel],
             split_groups_dev = take i filenames @ drop (Suc i) filenames,
             split_groups_test = [filenames ! i]\<rparr>"
  have iy: "i < length y" and ifn: "i < length filenames"
    using assms by simp_all
  have run: "loo_split (int i) X y doc ylabel filenames = Inr ?r"
    unfolding loo_split_def
    by (simp add: np_delete_in_range [OF assms(1)] np_delete_in_range [OF iy]
        np_delete_in_range [OF ifn] py_index_in_range [OF ifn])
  have lenX: "length (split_X_dev ?r) = length X - 1"
    using length_remove_nth [OF assms(1)] by simp
  have leny: "length (split_y_dev ?r) = length X - 1"
    using length_remove_nth [OF iy] assms(2) by simp
  have leng: "length (split_groups_dev ?r) = length X - 1"
    using length_remove_nth [OF ifn] assms(3) by simp
  have nth: "\<forall>j < length X - 1. split_X_dev ?r ! j = (if j < i then X ! j else X ! Suc j)"
    using nth_remove_nth [OF assms(1)] by simp
  have ms: "mset (split_X_dev ?r) = mset X - {#X ! i#}"
    using mset_remove_nth [OF assms(1)] by simp
  have dis: "distinct filenames \<longrightarrow> filenames ! i \<notin> set (split_groups_dev ?r)"
    using distinct_remove_nth [OF _ ifn] by simp
  show ?thesis
    using run lenX leny leng nth ms dis by (intro exI [of _ ?r]) simp
qed

theorem loo_split_removes_index_witness:
  "\<exists>r. loo_split 1 [''aa'', ''bb'', ''aa''] [1, 0, 1] ''bb'' 0 [''f_0'', ''g_0'', ''h_0''] = Inr r
     \<and> split_X_dev r = [''aa'', ''aa''] \<and> split_y_dev r = [1, 1] \<and> split_groups_dev r = [''f_0'', ''h_0'']
     \<and> split_groups_test r = [''g_0''] \<and> ''g_0'' \<notin> set (split_groups_dev r)"
  using loo_split_removes_index [of 1 "[''aa'', ''bb'', ''aa'']" "[1, 0, 1]"
      "[''f_0'', ''g_0'', ''h_0'']" "''bb''" 0]
  by auto

section \<open>Properties of the column ranges\<close>

lemma update_fresh: "k \<notin> fst ` set al \<Longrightarrow> AList.update k v al = al @ [(k, v)]"
  by (induction al) auto

lemma zip_take_left: "zip xs ys = zip (take (length ys) xs) ys"
  by (induction xs ys rule: list_induct2') auto

lemma length_ranges_from [simp]: "length (ranges_from s ws) = length ws"
  by (induction ws arbitrary: s) auto

lemma nth_ranges_from:
  "k < length ws \<Longrightarrow> ranges_from s ws ! k = (s + sum_list (take k ws), s + sum_list (take (Suc k) ws))"
proof (induction ws arbitrary: s k)
  case Nil then show ?case by simp
next
  case (Cons w ws)
  show ?case
  proof (cases k)
    case 0 then show ?thesis by simp
  next
    case (Suc k')
    with Cons.prems have "k' < length ws" by simp
    from Cons.IH [OF this, of "s + w"] Suc show ?thesis by (simp add: add.assoc)
  qed
qed

lemma loop_result:
  assumes "list_all2 (\<lambda>f w. feature_shape f = Inr w) fs ws"
    and "length vs = length fs"
    and "distinct (map fst d @ vs)"
  shows "compute_feature_set_idx_loop (zip vs fs) e e d = Inr (d @ zip vs (ranges_from e ws))"
  using assms
proof (induction fs ws arbitrary: vs e d rule: list_all2_induct)
  case Nil
  then show ?case by simp
next
  case (Cons f fs w ws)
  then obtain v vs' where vs: "vs = v # vs'" by (cases vs) auto
  have fresh: "v \<notin> fst ` set d" using Cons.prems vs by auto
  have len: "length vs' = length fs" using Cons.prems vs by simp
  have dist: "distinct (map fst (d @ [(v, (e, e + w))]) @ vs')"
    using Cons.prems vs by auto
  show ?case
    using Cons.IH [OF len dist, of "e + w"] Cons.hyps(1) vs
    by (simp add: update_fresh [OF fresh] Let_def)
qed

lemma ranges_from_disjoint:
  assumes "j < k" and "k < length ws"
  shows "{fst (ranges_from s ws ! j) ..< snd (ranges_from s ws ! j)}
           \<inter> {fst (ranges_from s ws ! k) ..< snd (ranges_from s ws ! k)} = {}"
proof -
  have jl: "j < length ws" using assms by simp
  have "take (Suc j) ws = take (Suc j) (take k ws)"
    using assms by (simp add: min_def)
  then have "sum_list (take (Suc j) ws) \<le> sum_list (take k ws)"
    by (metis append_take_drop_id le_add1 sum_list.append)
  then show ?thesis
    by (auto simp: nth_ranges_from [OF jl] nth_ranges_from [OF assms(2)])
qed

lemma ranges_from_union:
  "(\<Union>k < length ws. {fst (ranges_from s ws ! k) ..< snd (ranges_from s ws ! k)})
     = {s ..< s + sum_list ws}"
proof (induction ws arbitrary: s)
  case Nil
  then show ?case by simp
next
  case (Cons w ws)
  have "(\<Union>k < length (w # ws).
            {fst (ranges_from s (w # ws) ! k) ..< snd (ranges_from s (w # ws) ! k)})
        = {s ..< s + w} \<union> (\<Union>k < length ws.
            {fst (ranges_from (s + w) ws ! k) ..< snd (ranges_from (s + w) ws ! k)})"
    by (auto simp: lessThan_Suc_eq_insert_0 image_iff nth_Cons split: nat.splits)
  also have "\<dots> = {s ..< s + w} \<union> {s + w ..< s + w + sum_list ws}"
    using Cons.IH by simp
  also have "\<dots> = {s ..< s + sum_list (w # ws)}"
    by auto
  finally show ?case .
qed

text \<open>
  C7. When every feature set has a column count and the views are distinct objects (one
  feature set per view, or fewer), the index holds, in registration order, one interval
  per view that received a feature set: the interval of view \<open>k\<close> starts at the total width
  of the views before it and is as wide as its own feature set, each interval ends where
  the next one starts, two different intervals share no column, and together they are
  exactly the columns \<open>0 ..< total\<close>.
\<close>

theorem feature_set_idx_partition:
  assumes "distinct vectorizers"
    and "length feature_sets_dev \<le> length vectorizers"
    and "list_all2 (\<lambda>fset w. feature_shape fset = Inr w) feature_sets_dev widths"
  shows "\<exists>idx. compute_feature_set_idx vectorizers feature_sets_dev = Inr idx
           \<and> map fst idx = take (length feature_sets_dev) vectorizers
           \<and> (\<forall>k < length idx. snd (snd (idx ! k)) = fst (snd (idx ! k)) + widths ! k)
           \<and> (\<forall>k < length idx. fst (snd (idx ! k)) = sum_list (take k widths))
           \<and> (\<forall>k. Suc k < length idx \<longrightarrow> snd (snd (idx ! k)) = fst (snd (idx ! Suc k)))
           \<and> (\<forall>j < length idx. \<forall>k < length idx. j \<noteq> k \<longrightarrow>
                 {fst (snd (idx ! j)) ..< snd (snd (idx ! j))}
                   \<inter> {fst (snd (idx ! k)) ..< snd (snd (idx ! k))} = {})
           \<and> (\<Union>k < length idx. {fst (snd (idx ! k)) ..< snd (snd (idx ! k))})
                 = {0 ..< sum_list widths}"
proof -
  let ?vs = "take (length feature_sets_dev) vectorizers"
  let ?idx = "zip ?vs (ranges_from 0 widths)"
  have lw: "length widths = length feature_sets_dev"
    using assms(3) by (simp add: list_all2_lengthD)
  have lvs: "length ?vs = length feature_sets_dev"
    using assms(2) by simp
  have lv: "length ?vs = length widths"
    using lvs lw by simp
  have zip_eq: "zip vectorizers feature_sets_dev = zip ?vs feature_sets_dev"
    by (rule zip_take_left)
  have dvs: "distinct ?vs"
    using assms(1) by simp
  have run: "compute_feature_set_idx vectorizers feature_sets_dev = Inr ?idx"
    unfolding compute_feature_set_idx_def zip_eq
    using loop_result [OF assms(3) lvs, of "[]" 0] dvs by simp
  have len: "length ?idx = length widths"
    using lv by simp
  have keys: "map fst ?idx = ?vs"
    using lv by (simp add: map_fst_zip)
  have rng: "\<And>k. k < length widths \<Longrightarrow> snd (?idx ! k) = ranges_from 0 widths ! k"
    using lv by simp
  have width: "\<forall>k < length ?idx. snd (snd (?idx ! k)) = fst (snd (?idx ! k)) + widths ! k"
    using lv by (simp add: nth_ranges_from take_Suc_conv_app_nth)
  have start: "\<forall>k < length ?idx. fst (snd (?idx ! k)) = sum_list (take k widths)"
    using lv by (simp add: nth_ranges_from)
  have consec: "\<forall>k. Suc k < length ?idx \<longrightarrow> snd (snd (?idx ! k)) = fst (snd (?idx ! Suc k))"
    using lv by (simp add: nth_ranges_from)
  have disj: "\<forall>j < length ?idx. \<forall>k < length ?idx. j \<noteq> k \<longrightarrow>
                 {fst (snd (?idx ! j)) ..< snd (snd (?idx ! j))}
                   \<inter> {fst (snd (?idx ! k)) ..< snd (snd (?idx ! k))} = {}"
  proof (intro allI impI)
    fix j k
    assume j: "j < length ?idx" and k: "k < length ?idx" and ne: "j \<noteq> k"
    have jw: "j < length widths" and kw: "k < length widths" using j k len by simp_all
    consider "j < k" | "k < j" using ne by linarith
    then show "{fst (snd (?idx ! j)) ..< snd (snd (?idx ! j))}
                 \<inter> {fst (snd (?idx ! k)) ..< snd (snd (?idx ! k))} = {}"
    proof cases
      case 1
      from ranges_from_disjoint [OF 1 kw, of 0] show ?thesis
        by (simp only: rng [OF jw] rng [OF kw])
    next
      case 2
      from ranges_from_disjoint [OF 2 jw, of 0] show ?thesis
        by (simp only: rng [OF jw] rng [OF kw] Int_commute)
    qed
  qed
  have "(\<Union>k < length ?idx. {fst (snd (?idx ! k)) ..< snd (snd (?idx ! k))})
          = (\<Union>k < length widths. {fst (ranges_from 0 widths ! k) ..< snd (ranges_from 0 widths ! k)})"
    using rng len by auto
  then have cover: "(\<Union>k < length ?idx. {fst (snd (?idx ! k)) ..< snd (snd (?idx ! k))})
          = {0 ..< sum_list widths}"
    using ranges_from_union [where ws = widths and s = 0] by simp
  show ?thesis
    using run keys width start consec disj cover by (intro exI [of _ ?idx]) blast
qed

theorem feature_set_idx_partition_witness:
  "\<exists>idx. compute_feature_set_idx [''fw'', ''post'', ''len'']
            [NdArray [4, 3], PyList1 [1, 2, 3, 4], NdArray [4, 2]] = Inr idx
     \<and> map fst idx = [''fw'', ''post'', ''len'']
     \<and> (\<Union>k < length idx. {fst (snd (idx ! k)) ..< snd (snd (idx ! k))}) = {0 ..< 6}"
  using feature_set_idx_partition [of "[''fw'', ''post'', ''len'']"
      "[NdArray [4, 3], PyList1 [1, 2, 3, 4], NdArray [4, 2]]" "[3, 1, 2]"]
  by (auto simp: feature_shape_def np_array_shape_def)

section \<open>Properties of string search\<close>

lemma py_find_from_range:
  "py_find_from sub s k = - 1 \<or> (\<exists>j \<le> length s. py_find_from sub s k = int (k + j))"
proof (induction s arbitrary: k)
  case Nil
  then show ?case by simp
next
  case (Cons c cs)
  show ?case
  proof (cases "take (length sub) (c # cs) = sub")
    case True
    then have "py_find_from sub (c # cs) k = int (k + 0)" by simp
    then show ?thesis by blast
  next
    case False
    from Cons.IH [of "Suc k"] show ?thesis
    proof
      assume "py_find_from sub cs (Suc k) = - 1"
      with False show ?thesis by simp
    next
      assume "\<exists>j \<le> length cs. py_find_from sub cs (Suc k) = int (Suc k + j)"
      then obtain j where "j \<le> length cs" "py_find_from sub cs (Suc k) = int (Suc k + j)" by blast
      with False have "Suc j \<le> length (c # cs)" "py_find_from sub (c # cs) k = int (k + Suc j)"
        by simp_all
      then show ?thesis by blast
    qed
  qed
qed



lemma py_find_nonneg_iff: "py_find s sub \<noteq> - 1 \<longleftrightarrow> (\<exists>j \<le> length s. py_find s sub = int j)"
  using py_find_from_range [of sub s 0] unfolding py_find_def by auto


section \<open>Properties of the segment lookup\<close>

lemma loop_collect:
  "get_processed_segments_loop nlp c rows n acc =
     (case collect (map (row_result nlp c) rows) of
        Inl e \<Rightarrow> Inl e
      | Inr ps \<Rightarrow> Inr (acc @ ps, n + length (filter alignment_failed ps)))"
proof (induction rows arbitrary: n acc)
  case Nil
  then show ?case by simp
next
  case (Cons row rows)
  obtain segment grp where row: "row = (segment, grp)" by (cases row)
  show ?case
    unfolding row
    by (simp add: Cons.IH row_result_def cache_key_def Let_def
        split: option.splits sum.splits prod.splits)
qed

lemma collect_map_Inr: "collect (map Inr ys) = Inr ys"
  by (induction ys) auto



lemma collect_all_Inr:
  assumes "\<forall>x \<in> set xs. \<exists>v. x = Inr v"
  shows "\<exists>ys. collect xs = Inr ys \<and> xs = map Inr ys"
  using assms
proof (induction xs rule: collect.induct)
  case 1
  then show ?case by simp
next
  case (2 e rest)
  then show ?case by simp
next
  case (3 v rest)
  then obtain ys where "collect rest = Inr ys" "rest = map Inr ys" by auto
  then show ?case by simp
qed


lemma find_segment_cases:
  assumes "sent_tokenize nlp segment = start_segment # others"
  shows "find_segment nlp segment d =
     (let start_idx = py_find (doc_text nlp d) start_segment;
          end_idx = start_idx + int (length segment)
      in if span_truthy (char_span nlp d start_idx end_idx)
         then Inr ([(start_idx, end_idx)], char_span nlp d start_idx end_idx)
         else Inr ([(start_idx, end_idx), (start_idx, end_idx - 1)],
                   char_span nlp d start_idx (end_idx - 1)))"
  using assms by (simp add: find_segment_def py_index_def Let_def)

lemma row_result_defined:
  assumes "cache_key (snd row) \<in> dom processed_docs"
    and "\<not> py_endswith (snd row) ''_0_0'' \<longrightarrow> sent_tokenize nlp (fst row) \<noteq> []"
  shows "\<exists>p. row_result nlp processed_docs row = Inr p"
proof -
  from assms(1) obtain d where d: "processed_docs (cache_key (snd row)) = Some d" by auto
  show ?thesis
  proof (cases "py_endswith (snd row) ''_0_0''")
    case True
    with d show ?thesis by (simp add: row_result_def)
  next
    case False
    with assms(2) obtain s others where "sent_tokenize nlp (fst row) = s # others"
      by (cases "sent_tokenize nlp (fst row)") auto
    from find_segment_cases [OF this, of d] d False show ?thesis
      by (auto simp: row_result_def Let_def)
  qed
qed

lemma py_endswith_length: "py_endswith s suffix \<Longrightarrow> length suffix \<le> length s"
  by (simp add: py_endswith_def)

lemma py_slice_to_neg: "0 < k \<Longrightarrow> py_slice_to s (- int k) = take (length s - k) s"
  by (simp add: py_slice_to_def nat_diff_distrib')
















text \<open>
  C6. Take parallel lists of segments and group ids in which every row's key is in the
  dictionary and every segment row has a first sentence. Then \<open>get_processed_segments\<close>
  returns one entry per row, and the count it prints is the number of falsy span entries.
  For a segment row, \<open>find_segment\<close> calls \<open>char_span\<close> once when the first span is truthy
  and otherwise exactly once more, with the end offset decremented by 1, and the row's
  entry is the span it returns; when the second lookup yields \<open>None\<close> the entry is the
  \<open>None\<close> placeholder, which is counted as failed and stays in the list.
\<close>

theorem get_processed_segments_keeps_rows:
  assumes "length groups = length X"
    and "\<forall>i < length X. cache_key (groups ! i) \<in> dom processed_docs"
    and "\<forall>i < length X. \<not> py_endswith (groups ! i) ''_0_0'' \<longrightarrow> sent_tokenize nlp (X ! i) \<noteq> []"
  shows "\<exists>processed_X none_count.
      get_processed_segments nlp processed_docs X groups = Inr (processed_X, none_count)
      \<and> length processed_X = length X
      \<and> none_count = length (filter alignment_failed processed_X)
      \<and> (\<forall>i < length X. \<not> py_endswith (groups ! i) ''_0_0'' \<longrightarrow>
           (\<exists>d start_segment others.
              processed_docs (py_slice_to (groups ! i) (py_find (groups ! i) ''_0'')) = Some d
              \<and> sent_tokenize nlp (X ! i) = start_segment # others
              \<and> (let start_idx = py_find (doc_text nlp d) start_segment;
                     end_idx = start_idx + int (length (X ! i))
                 in (span_truthy (char_span nlp d start_idx end_idx) \<longrightarrow>
                       find_segment nlp (X ! i) d
                         = Inr ([(start_idx, end_idx)], char_span nlp d start_idx end_idx)
                       \<and> processed_X ! i = ProcessedSpan (char_span nlp d start_idx end_idx))
                  \<and> (\<not> span_truthy (char_span nlp d start_idx end_idx) \<longrightarrow>
                       find_segment nlp (X ! i) d
                         = Inr ([(start_idx, end_idx), (start_idx, end_idx - 1)],
                                char_span nlp d start_idx (end_idx - 1))
                       \<and> processed_X ! i = ProcessedSpan (char_span nlp d start_idx (end_idx - 1))
                       \<and> (char_span nlp d start_idx (end_idx - 1) = None \<longrightarrow>
                            processed_X ! i = ProcessedSpan None \<and> alignment_failed (processed_X ! i))))))"
proof -
  let ?rows = "zip X groups"
  have "\<forall>x \<in> set (map (row_result nlp processed_docs) ?rows). \<exists>v. x = Inr v"
  proof
    fix x assume "x \<in> set (map (row_result nlp processed_docs) ?rows)"
    then obtain i where i: "i < length ?rows" and x: "x = row_result nlp processed_docs (?rows ! i)"
      by (auto simp: in_set_conv_nth)
    from i assms(1) have iX: "i < length X" by simp
    have row: "?rows ! i = (X ! i, groups ! i)" using i by simp
    from row_result_defined [of "?rows ! i" processed_docs nlp] assms(2,3) iX row x
    show "\<exists>v. x = Inr v" by simp
  qed
  from collect_all_Inr [OF this] obtain ps where
    col: "collect (map (row_result nlp processed_docs) ?rows) = Inr ps"
    and ps: "map (row_result nlp processed_docs) ?rows = map Inr ps" by blast
  have lps: "length ps = length X"
    using ps assms(1) by (metis length_map length_zip min.idem)
  have nth: "\<And>i. i < length X \<Longrightarrow> row_result nlp processed_docs (X ! i, groups ! i) = Inr (ps ! i)"
  proof -
    fix i assume iX: "i < length X"
    then have il: "i < length ?rows" using assms(1) by simp
    have a: "map (row_result nlp processed_docs) ?rows ! i = row_result nlp processed_docs (?rows ! i)"
      using il by (rule nth_map)
    have b: "map Inr ps ! i = Inr (ps ! i)" using iX lps by simp
    have c: "?rows ! i = (X ! i, groups ! i)" using il by simp
    show "row_result nlp processed_docs (X ! i, groups ! i) = Inr (ps ! i)"
      by (metis a b c ps)
  qed
  have run: "get_processed_segments nlp processed_docs X groups
               = Inr (ps, length (filter alignment_failed ps))"
    unfolding get_processed_segments_def loop_collect col by simp
  have rows: "\<forall>i < length X. \<not> py_endswith (groups ! i) ''_0_0'' \<longrightarrow>
           (\<exists>d start_segment others.
              processed_docs (py_slice_to (groups ! i) (py_find (groups ! i) ''_0'')) = Some d
              \<and> sent_tokenize nlp (X ! i) = start_segment # others
              \<and> (let start_idx = py_find (doc_text nlp d) start_segment;
                     end_idx = start_idx + int (length (X ! i))
                 in (span_truthy (char_span nlp d start_idx end_idx) \<longrightarrow>
                       find_segment nlp (X ! i) d
                         = Inr ([(start_idx, end_idx)], char_span nlp d start_idx end_idx)
                       \<and> ps ! i = ProcessedSpan (char_span nlp d start_idx end_idx))
                  \<and> (\<not> span_truthy (char_span nlp d start_idx end_idx) \<longrightarrow>
                       find_segment nlp (X ! i) d
                         = Inr ([(start_idx, end_idx), (start_idx, end_idx - 1)],
                                char_span nlp d start_idx (end_idx - 1))
                       \<and> ps ! i = ProcessedSpan (char_span nlp d start_idx (end_idx - 1))
                       \<and> (char_span nlp d start_idx (end_idx - 1) = None \<longrightarrow>
                            ps ! i = ProcessedSpan None \<and> alignment_failed (ps ! i)))))"
  proof (intro allI impI)
    fix i assume iX: "i < length X" and seg: "\<not> py_endswith (groups ! i) ''_0_0''"
    from assms(2) iX seg obtain d where
      d: "processed_docs (py_slice_to (groups ! i) (py_find (groups ! i) ''_0'')) = Some d"
      by (auto simp: cache_key_def)
    from assms(3) iX seg obtain s others where st: "sent_tokenize nlp (X ! i) = s # others"
      by (cases "sent_tokenize nlp (X ! i)") auto
    note fs = find_segment_cases [OF st, of d]
    from nth [OF iX] d seg have rr:
      "(case find_segment nlp (X ! i) d of Inl e \<Rightarrow> Inl e
        | Inr (lookups, sp) \<Rightarrow> Inr (ProcessedSpan sp)) = Inr (ps ! i)"
      by (simp add: row_result_def cache_key_def)
    define start_idx where "start_idx = py_find (doc_text nlp d) s"
    define end_idx where "end_idx = start_idx + int (length (X ! i))"
    have body: "(span_truthy (char_span nlp d start_idx end_idx) \<longrightarrow>
                   find_segment nlp (X ! i) d
                     = Inr ([(start_idx, end_idx)], char_span nlp d start_idx end_idx)
                   \<and> ps ! i = ProcessedSpan (char_span nlp d start_idx end_idx))
              \<and> (\<not> span_truthy (char_span nlp d start_idx end_idx) \<longrightarrow>
                   find_segment nlp (X ! i) d
                     = Inr ([(start_idx, end_idx), (start_idx, end_idx - 1)],
                            char_span nlp d start_idx (end_idx - 1))
                   \<and> ps ! i = ProcessedSpan (char_span nlp d start_idx (end_idx - 1))
                   \<and> (char_span nlp d start_idx (end_idx - 1) = None \<longrightarrow>
                        ps ! i = ProcessedSpan None \<and> alignment_failed (ps ! i)))"
    proof (cases "span_truthy (char_span nlp d start_idx end_idx)")
      case True
      with fs have f: "find_segment nlp (X ! i) d
                     = Inr ([(start_idx, end_idx)], char_span nlp d start_idx end_idx)"
        by (simp add: Let_def start_idx_def end_idx_def)
      with rr have "ps ! i = ProcessedSpan (char_span nlp d start_idx end_idx)" by simp
      with f True show ?thesis by simp
    next
      case False
      with fs have f: "find_segment nlp (X ! i) d
                     = Inr ([(start_idx, end_idx), (start_idx, end_idx - 1)],
                            char_span nlp d start_idx (end_idx - 1))"
        by (simp add: Let_def start_idx_def end_idx_def)
      with rr have p: "ps ! i = ProcessedSpan (char_span nlp d start_idx (end_idx - 1))" by simp
      have "char_span nlp d start_idx (end_idx - 1) = None \<longrightarrow>
              ps ! i = ProcessedSpan None \<and> alignment_failed (ps ! i)"
        using p by (simp add: span_truthy_def)
      with f p False show ?thesis by simp
    qed
    show "\<exists>d start_segment others.
              processed_docs (py_slice_to (groups ! i) (py_find (groups ! i) ''_0'')) = Some d
              \<and> sent_tokenize nlp (X ! i) = start_segment # others
              \<and> (let start_idx = py_find (doc_text nlp d) start_segment;
                     end_idx = start_idx + int (length (X ! i))
                 in (span_truthy (char_span nlp d start_idx end_idx) \<longrightarrow>
                       find_segment nlp (X ! i) d
                         = Inr ([(start_idx, end_idx)], char_span nlp d start_idx end_idx)
                       \<and> ps ! i = ProcessedSpan (char_span nlp d start_idx end_idx))
                  \<and> (\<not> span_truthy (char_span nlp d start_idx end_idx) \<longrightarrow>
                       find_segment nlp (X ! i) d
                         = Inr ([(start_idx, end_idx), (start_idx, end_idx - 1)],
                                char_span nlp d start_idx (end_idx - 1))
                       \<and> ps ! i = ProcessedSpan (char_span nlp d start_idx (end_idx - 1))
                       \<and> (char_span nlp d start_idx (end_idx - 1) = None \<longrightarrow>
                            ps ! i = ProcessedSpan None \<and> alignment_failed (ps ! i))))"
      using d st body unfolding Let_def start_idx_def end_idx_def
      by (intro exI [of _ d] exI [of _ s] exI [of _ others]) blast
  qed
  show ?thesis
    using run lps rows by (intro exI [of _ ps] exI [of _ "length (filter alignment_failed ps)"]) simp
qed

theorem get_processed_segments_keeps_rows_witness:
  "\<exists>processed_X none_count.
     get_processed_segments plain_annotation [''a'' \<mapsto> ''hello world'', ''b_0'' \<mapsto> ''xyz'']
       [''world '', ''xyz'', ''world   ''] [''a_0_1'', ''b_0_0_0'', ''a_0_2'']
       = Inr (processed_X, none_count)
     \<and> length processed_X = 3
     \<and> processed_X = [ProcessedSpan (Some (6, 11)), ProcessedDoc ''xyz'', ProcessedSpan None]
     \<and> none_count = 1"
proof -
  let ?X = "[''world '', ''xyz'', ''world   '']"
  let ?groups = "[''a_0_1'', ''b_0_0_0'', ''a_0_2'']"
  let ?docs = "[''a'' \<mapsto> ''hello world'', ''b_0'' \<mapsto> ''xyz'']"
  have h1: "length ?groups = length ?X" by simp
  have h2: "\<forall>i < length ?X. cache_key (?groups ! i) \<in> dom ?docs"
    by (simp add: All_less_Suc nth_Cons' cache_key_def py_endswith_def py_slice_to_def py_find_def)
  have h3: "\<forall>i < length ?X. \<not> py_endswith (?groups ! i) ''_0_0'' \<longrightarrow>
              sent_tokenize plain_annotation (?X ! i) \<noteq> []"
    by (simp add: All_less_Suc nth_Cons' plain_annotation_def)
  have ev: "get_processed_segments plain_annotation ?docs ?X ?groups
     = Inr ([ProcessedSpan (Some (6, 11)), ProcessedDoc ''xyz'', ProcessedSpan None], 1)"
    by (simp add: get_processed_segments_def find_segment_def py_index_def plain_annotation_def
        py_endswith_def py_slice_to_def py_find_def span_truthy_def)
  from get_processed_segments_keeps_rows [OF h1 h2 h3]
  obtain processed_X none_count where
    r: "get_processed_segments plain_annotation ?docs ?X ?groups = Inr (processed_X, none_count)"
    and l: "length processed_X = length ?X"
    by (elim exE conjE) (rule that, assumption+)
  from r ev have v: "processed_X = [ProcessedSpan (Some (6, 11)), ProcessedDoc ''xyz'', ProcessedSpan None]"
    and n: "none_count = 1"
    by simp_all
  from l have l3: "length processed_X = 3" by simp
  from r l3 v n show ?thesis by (intro exI conjI)
qed




section \<open>Properties of the evaluation\<close>

lemma filter_length_mono:
  "(\<And>x. x \<in> set xs \<Longrightarrow> P x \<Longrightarrow> Q x) \<Longrightarrow> length (filter P xs) \<le> length (filter Q xs)"
  by (induction xs) auto

lemma sorted_count_le:
  fixes s :: "real list"
  assumes "sorted s" and "k < length s"
  shows "Suc k \<le> length (filter (\<lambda>x. x \<le> s ! k) s)"
proof -
  have all: "\<forall>x \<in> set (take (Suc k) s). x \<le> s ! k"
  proof
    fix x assume "x \<in> set (take (Suc k) s)"
    then obtain j where "j < Suc k" "j < length s" "x = s ! j"
      by (auto simp: in_set_conv_nth)
    with assms show "x \<le> s ! k" by (simp add: sorted_nth_mono)
  qed
  have "length (filter (\<lambda>x. x \<le> s ! k) (take (Suc k) s)) = length (take (Suc k) s)"
    using all by simp
  also have "\<dots> = Suc k" using assms(2) by simp
  finally have a: "length (filter (\<lambda>x. x \<le> s ! k) (take (Suc k) s)) = Suc k" .
  have "filter (\<lambda>x. x \<le> s ! k) s
          = filter (\<lambda>x. x \<le> s ! k) (take (Suc k) s) @ filter (\<lambda>x. x \<le> s ! k) (drop (Suc k) s)"
    by (metis append_take_drop_id filter_append)
  then show ?thesis using a by simp
qed

lemma sorted_count_ge:
  fixes s :: "real list"
  assumes "sorted s" and "k < length s"
  shows "length s - k \<le> length (filter (\<lambda>x. s ! k \<le> x) s)"
proof -
  have all: "\<forall>x \<in> set (drop k s). s ! k \<le> x"
  proof
    fix x assume "x \<in> set (drop k s)"
    then obtain j where "j < length s - k" "x = s ! (k + j)"
      by (auto simp: in_set_conv_nth)
    with assms show "s ! k \<le> x" by (simp add: sorted_nth_mono)
  qed
  have a: "length (filter (\<lambda>x. s ! k \<le> x) (drop k s)) = length s - k"
    using all by simp
  have "filter (\<lambda>x. s ! k \<le> x) s
          = filter (\<lambda>x. s ! k \<le> x) (take k s) @ filter (\<lambda>x. s ! k \<le> x) (drop k s)"
    by (metis append_take_drop_id filter_append)
  then show ?thesis using a by simp
qed

lemma length_filter_sort:
  fixes xs :: "real list"
  shows "length (filter P (sort xs)) = length (filter P xs)"
proof -
  have "mset (filter P (sort xs)) = mset (filter P xs)" by simp
  then show ?thesis by (metis size_mset)
qed

lemma np_median_is_median:
  assumes "a \<noteq> []"
  shows "\<exists>m. np_median a = Finite m
           \<and> length a \<le> 2 * length (filter (\<lambda>x. x \<le> m) a)
           \<and> length a \<le> 2 * length (filter (\<lambda>x. m \<le> x) a)"
proof -
  let ?s = "sort a"
  let ?n = "length a"
  let ?k = "?n div 2"
  have srt: "sorted ?s" by simp
  have len: "length ?s = ?n" by simp
  have pos: "0 < ?n" using assms by simp
  have k: "?k < length ?s" using pos by simp
  show ?thesis
  proof (cases "odd ?n")
    case True
    have m: "np_median a = Finite (?s ! ?k)"
      using True pos by (simp add: np_median_def Let_def)
    have "Suc ?k \<le> length (filter (\<lambda>x. x \<le> ?s ! ?k) a)"
      using sorted_count_le [OF srt k] by (simp only: length_filter_sort)
    then have le: "?n \<le> 2 * length (filter (\<lambda>x. x \<le> ?s ! ?k) a)" by linarith
    have "?n - ?k \<le> length (filter (\<lambda>x. ?s ! ?k \<le> x) a)"
      using sorted_count_ge [OF srt k] by (simp only: length_filter_sort len)
    then have ge: "?n \<le> 2 * length (filter (\<lambda>x. ?s ! ?k \<le> x) a)" by linarith
    from m le ge show ?thesis by blast
  next
    case False
    then have ev: "even ?n" by simp
    with pos have k1: "0 < ?k" by presburger
    let ?lo = "?s ! (?k - 1)" and ?hi = "?s ! ?k"
    let ?m = "(?lo + ?hi) / 2"
    have m: "np_median a = Finite ?m"
      using False pos by (simp add: np_median_def Let_def)
    have lohi: "?lo \<le> ?hi"
      using srt k by (simp add: sorted_nth_mono)
    have k0: "?k - 1 < length ?s" using k by simp
    have "Suc (?k - 1) \<le> length (filter (\<lambda>x. x \<le> ?lo) a)"
      using sorted_count_le [OF srt k0] by (simp only: length_filter_sort)
    moreover have "length (filter (\<lambda>x. x \<le> ?lo) a) \<le> length (filter (\<lambda>x. x \<le> ?m) a)"
      using lohi by (intro filter_length_mono) simp
    ultimately have "?k \<le> length (filter (\<lambda>x. x \<le> ?m) a)" using k1 by linarith
    then have le: "?n \<le> 2 * length (filter (\<lambda>x. x \<le> ?m) a)" using ev by presburger
    have "?n - ?k \<le> length (filter (\<lambda>x. ?hi \<le> x) a)"
      using sorted_count_ge [OF srt k] by (simp only: length_filter_sort len)
    moreover have "length (filter (\<lambda>x. ?hi \<le> x) a) \<le> length (filter (\<lambda>x. ?m \<le> x) a)"
      using lohi by (intro filter_length_mono) simp
    ultimately have "?n - ?k \<le> length (filter (\<lambda>x. ?m \<le> x) a)" by linarith
    then have ge: "?n \<le> 2 * length (filter (\<lambda>x. ?m \<le> x) a)" by linarith
    from m le ge show ?thesis by blast
  qed
qed

lemma predicted_class_probabilities_binary:
  assumes "length y_pred = n" and "length probabilities = n"
    and "\<forall>i < n. y_pred ! i \<in> {0, 1} \<and> 2 \<le> length (probabilities ! i)"
  shows "predicted_class_probabilities probabilities y_pred
           = Inr (map (\<lambda>i. probabilities ! i ! nat (y_pred ! i)) [0..<n])"
proof -
  have row: "\<And>i. i < n \<Longrightarrow> py_index (probabilities ! i) (y_pred ! i)
                 = Inr (probabilities ! i ! nat (y_pred ! i))"
  proof -
    fix i assume "i < n"
    with assms(3) have "y_pred ! i \<in> {0, 1}" "2 \<le> length (probabilities ! i)" by simp_all
    then show "py_index (probabilities ! i) (y_pred ! i) = Inr (probabilities ! i ! nat (y_pred ! i))"
      by (auto simp: py_index_def)
  qed
  have "map (\<lambda>(prob, class_idx). py_index prob class_idx) (zip probabilities y_pred)
          = map Inr (map (\<lambda>i. probabilities ! i ! nat (y_pred ! i)) [0..<n])"
    using assms(1,2) row by (intro nth_equalityI) simp_all
  then show ?thesis
    by (simp only: predicted_class_probabilities_def collect_map_Inr)
qed

lemma check_binary_targets_ok:
  assumes "length y_true = length y_pred" and "y_true \<noteq> []"
    and "set y_true \<subseteq> {0, 1}" and "set y_pred \<subseteq> {0, 1}"
  shows "check_binary_targets y_true y_pred = Inr ()"
proof -
  let ?present = "remdups (y_true @ y_pred)"
  have sub: "set (y_true @ y_pred) \<subseteq> {0, 1}" using assms(3,4) by simp
  have "length ?present = card (set (y_true @ y_pred))" by (rule length_remdups_card_conv)
  also have "\<dots> \<le> card {0, 1 :: int}" using sub by (intro card_mono) simp_all
  finally have le2: "length ?present \<le> 2" by simp
  have one: "1 \<notin> set ?present \<longrightarrow> length ?present < 2"
  proof
    assume "1 \<notin> set ?present"
    with sub have "set (y_true @ y_pred) \<subseteq> {0}" by auto
    then have "card (set (y_true @ y_pred)) \<le> card {0 :: int}" by (intro card_mono) simp_all
    then show "length ?present < 2" by (simp add: length_remdups_card_conv)
  qed
  show ?thesis
    using assms(1,2) le2 one by (auto simp: check_binary_targets_def check_targets_def Let_def)
qed

lemma concat_replicate_single: "concat (replicate n [x]) = replicate n x"
  by (induction n) simp_all

lemma broadcast_single_label: "broadcast_labels [label] X_test = replicate (length X_test) label"
  by (simp add: broadcast_labels_def concat_replicate_single)

lemma check_targets_ok:
  "length y_true = length y_pred \<Longrightarrow> y_true \<noteq> [] \<Longrightarrow> check_targets y_true y_pred = Inr ()"
  by (simp add: check_targets_def)

lemma count_pairs_replicate:
  assumes "length ps = n"
  shows "length (filter (\<lambda>(t, p). R t p) (zip (replicate n label) ps))
           = card {i. i < n \<and> R label (ps ! i)}"
proof -
  have "length (filter (\<lambda>(t, p). R t p) (zip (replicate n label) ps))
          = card {i. i < length (zip (replicate n label) ps)
                    \<and> (\<lambda>(t, p). R t p) (zip (replicate n label) ps ! i)}"
    by (rule length_filter_conv_card)
  also have "\<dots> = card {i. i < n \<and> R label (ps ! i)}"
    using assms by (intro arg_cong [where f = card]) auto
  finally show ?thesis .
qed

lemma count_replicate: "length (filter P (replicate n label)) = card {i. i < n \<and> P label}"
proof -
  have "length (filter P (replicate n label))
          = card {i. i < length (replicate n label) \<and> P (replicate n label ! i)}"
    by (rule length_filter_conv_card)
  also have "\<dots> = card {i. i < n \<and> P label}"
    by (intro arg_cong [where f = card]) auto
  finally show ?thesis .
qed

lemma count_predictions:
  "length ps = n \<Longrightarrow> length (filter P ps) = card {i. i < n \<and> P (ps ! i)}"
  by (simp add: length_filter_conv_card)

lemma labels_of_broadcast:
  "0 < n \<Longrightarrow> sort (remdups (replicate n label @ ps)) = sorted_list_of_set (insert label (set ps))"
proof -
  assume "0 < n"
  then have "set (replicate n label @ ps) = insert label (set ps)" by auto
  then show ?thesis
    by (metis sorted_list_of_set_sort_remdups)
qed

lemma evaluate_model_binary:
  assumes "predict clf X_test = Inr y_pred" and "predict_proba clf X_test = Inr probabilities"
    and "length y_pred = length X_test" and "length probabilities = length X_test"
    and "\<forall>i < length X_test. y_pred ! i \<in> {0, 1} \<and> 2 \<le> length (probabilities ! i)"
    and "label \<in> {0, 1}" and "X_test \<noteq> []"
  shows "\<exists>acc precision recall f cf.
           accuracy_score (replicate (length X_test) label) y_pred = Inr acc
         \<and> precision_recall_fscore (replicate (length X_test) label) y_pred 1 = Inr (precision, recall, f)
         \<and> f1_score (replicate (length X_test) label) y_pred 1 = Inr f
         \<and> confusion_matrix_ravel (replicate (length X_test) label) y_pred = Inr cf
         \<and> evaluate_model self clf X_test [label] True
             = Inr (self\<lparr>self_posterior_proba :=
                           np_median (map (\<lambda>i. probabilities ! i ! nat (y_pred ! i)) [0..<length X_test]),
                        self_accuracy := acc\<rparr>,
                    \<lparr>ev_accuracy = acc, ev_f1 = f, ev_precision = precision, ev_recall = recall,
                     ev_cf = cf,
                     ev_posterior_proba =
                       np_median (map (\<lambda>i. probabilities ! i ! nat (y_pred ! i)) [0..<length X_test])\<rparr>)"
proof -
  let ?n = "length X_test"
  let ?ys = "replicate ?n label"
  have yp: "set y_pred \<subseteq> {0, 1}"
    using assms(3,5) by (auto simp: in_set_conv_nth)
  have ys: "set ?ys \<subseteq> {0, 1}" using assms(6) by auto
  have len: "length ?ys = length y_pred" using assms(3) by simp
  have ne: "?ys \<noteq> []" using assms(7) by simp
  have chk: "check_targets ?ys y_pred = Inr ()"
    by (rule check_targets_ok [OF len ne])
  have chkb: "check_binary_targets ?ys y_pred = Inr ()"
    by (rule check_binary_targets_ok [OF len ne ys yp])
  have "\<exists>acc. accuracy_score ?ys y_pred = Inr acc"
    by (simp add: accuracy_score_def chk)
  then obtain acc where acc: "accuracy_score ?ys y_pred = Inr acc" ..
  have "\<exists>precision recall f. precision_recall_fscore ?ys y_pred 1 = Inr (precision, recall, f)"
    by (simp add: precision_recall_fscore_def chkb Let_def)
  then obtain precision recall f where
    prfeq: "precision_recall_fscore ?ys y_pred 1 = Inr (precision, recall, f)" by blast
  have f1: "f1_score ?ys y_pred 1 = Inr f"
    using prfeq by (simp add: f1_score_def)
  have "\<exists>cf. confusion_matrix_ravel ?ys y_pred = Inr cf"
    by (simp add: confusion_matrix_ravel_def chk Let_def)
  then obtain cf where cf: "confusion_matrix_ravel ?ys y_pred = Inr cf" ..
  have "\<exists>report. classification_report ?ys y_pred 1 = Inr report"
    by (simp add: classification_report_def chk)
  then obtain report where rep: "classification_report ?ys y_pred 1 = Inr report" ..
  have pcp: "predicted_class_probabilities probabilities y_pred
           = Inr (map (\<lambda>i. probabilities ! i ! nat (y_pred ! i)) [0..<?n])"
    by (rule predicted_class_probabilities_binary [OF assms(3) assms(4) assms(5)])
  have "evaluate_model self clf X_test [label] True
             = Inr (self\<lparr>self_posterior_proba :=
                           np_median (map (\<lambda>i. probabilities ! i ! nat (y_pred ! i)) [0..<?n]),
                        self_accuracy := acc\<rparr>,
                    \<lparr>ev_accuracy = acc, ev_f1 = f, ev_precision = precision, ev_recall = recall,
                     ev_cf = cf,
                     ev_posterior_proba =
                       np_median (map (\<lambda>i. probabilities ! i ! nat (y_pred ! i)) [0..<?n])\<rparr>)"
    unfolding evaluate_model_def
    by (simp add: assms(1,2) broadcast_single_label pcp acc prfeq f1 cf rep Let_def)
  with acc prfeq f1 cf show ?thesis by blast
qed

lemma evaluate_model_empty:
  assumes "predict clf [] = Inr y_pred"
    and "return_proba \<longrightarrow> (\<exists>ps. predict_proba clf [] = Inr ps \<and> (ps = [] \<or> y_pred = []))"
  shows "evaluate_model self clf [] y_test return_proba = Inl ValueError"
proof -
  have b: "broadcast_labels y_test [] = []" by (simp add: broadcast_labels_def)
  have a: "accuracy_score [] y_pred = Inl ValueError"
    by (simp add: accuracy_score_def check_targets_def)
  show ?thesis
  proof (cases return_proba)
    case False
    then show ?thesis
      unfolding evaluate_model_def by (simp add: assms(1) b a)
  next
    case True
    with assms(2) obtain ps where ps: "predict_proba clf [] = Inr ps" and e: "ps = [] \<or> y_pred = []"
      by blast
    from e have "predicted_class_probabilities ps y_pred = Inr []"
      by (auto simp: predicted_class_probabilities_def)
    with True show ?thesis
      unfolding evaluate_model_def by (simp add: assms(1) ps b a)
  qed
qed

lemma length_concat_replicate: "length (concat (replicate n ys)) = n * length ys"
  by (induction n) simp_all

lemma evaluate_model_misaligned:
  assumes "predict clf X_test = Inr y_pred" and "length y_pred = length X_test"
    and "X_test \<noteq> []" and "length y_test \<noteq> 1"
  shows "evaluate_model self clf X_test y_test False = Inl ValueError"
proof -
  have "length (broadcast_labels y_test X_test) = length X_test * length y_test"
    by (simp add: broadcast_labels_def length_concat_replicate)
  then have "length (broadcast_labels y_test X_test) \<noteq> length y_pred"
    using assms(2,3,4) by simp
  then have "accuracy_score (broadcast_labels y_test X_test) y_pred = Inl ValueError"
    by (simp add: accuracy_score_def check_targets_def)
  then show ?thesis
    unfolding evaluate_model_def by (simp add: assms(1))
qed

lemma length_filter_map_upt:
  "length (filter P (map f [0..<n])) = card {i. i < n \<and> P (f i)}"
proof -
  have "length (filter P (map f [0..<n]))
          = card {i. i < length (map f [0..<n]) \<and> P (map f [0..<n] ! i)}"
    by (rule length_filter_conv_card)
  also have "\<dots> = card {i. i < n \<and> P (f i)}"
    by (intro arg_cong [where f = card]) auto
  finally show ?thesis .
qed

text \<open>
  C2. In the binary setting (the classifier returns one label in \<open>{0, 1}\<close> and one row of at
  least two probabilities per test row, the held-out label is 0 or 1, and there is at least
  one test row), \<open>evaluate_model\<close> returns, and its posterior confidence is the median of
  the values \<open>probabilities[i][y_pred[i]]\<close> over the test rows \<open>i\<close>: the probability of each
  row's predicted class. That median is a number \<open>m\<close> such that at least half of the rows
  have a value \<open>\<le> m\<close> and at least half a value \<open>\<ge> m\<close>. (With no test row the metrics
  raise ValueError: lemma \<open>evaluate_model_empty\<close>.)
\<close>

theorem evaluate_model_posterior_is_median:
  assumes "predict clf X_test = Inr y_pred" and "predict_proba clf X_test = Inr probabilities"
    and "length y_pred = length X_test" and "length probabilities = length X_test"
    and "\<forall>i < length X_test. y_pred ! i \<in> {0, 1} \<and> 2 \<le> length (probabilities ! i)"
    and "label \<in> {0, 1}" and "X_test \<noteq> []"
  shows "\<exists>self' ev.
           evaluate_model self clf X_test [label] True = Inr (self', ev)
         \<and> ev_posterior_proba ev
             = np_median (map (\<lambda>i. probabilities ! i ! nat (y_pred ! i)) [0..<length X_test])
         \<and> self_posterior_proba self' = ev_posterior_proba ev
         \<and> (\<exists>m. ev_posterior_proba ev = Finite m
                \<and> length X_test
                    \<le> 2 * card {i. i < length X_test \<and> probabilities ! i ! nat (y_pred ! i) \<le> m}
                \<and> length X_test
                    \<le> 2 * card {i. i < length X_test \<and> m \<le> probabilities ! i ! nat (y_pred ! i)})"
proof -
  let ?n = "length X_test"
  let ?ps = "map (\<lambda>i. probabilities ! i ! nat (y_pred ! i)) [0..<?n]"
  from evaluate_model_binary [OF assms, of self] obtain acc precision recall f cf where
    run: "evaluate_model self clf X_test [label] True
             = Inr (self\<lparr>self_posterior_proba := np_median ?ps, self_accuracy := acc\<rparr>,
                    \<lparr>ev_accuracy = acc, ev_f1 = f, ev_precision = precision, ev_recall = recall,
                     ev_cf = cf, ev_posterior_proba = np_median ?ps\<rparr>)"
    by blast
  have ne: "?ps \<noteq> []" using assms(7) by simp
  from np_median_is_median [OF ne] obtain m where
    m: "np_median ?ps = Finite m"
    and le: "length ?ps \<le> 2 * length (filter (\<lambda>x. x \<le> m) ?ps)"
    and ge: "length ?ps \<le> 2 * length (filter (\<lambda>x. m \<le> x) ?ps)"
    by blast
  from le have le': "?n \<le> 2 * card {i. i < ?n \<and> probabilities ! i ! nat (y_pred ! i) \<le> m}"
    unfolding length_filter_map_upt by simp
  from ge have ge': "?n \<le> 2 * card {i. i < ?n \<and> m \<le> probabilities ! i ! nat (y_pred ! i)}"
    unfolding length_filter_map_upt by simp
  from m le' ge' have med: "\<exists>m. np_median ?ps = Finite m
                 \<and> ?n \<le> 2 * card {i. i < ?n \<and> probabilities ! i ! nat (y_pred ! i) \<le> m}
                 \<and> ?n \<le> 2 * card {i. i < ?n \<and> m \<le> probabilities ! i ! nat (y_pred ! i)}"
    by blast
  let ?s = "self\<lparr>self_posterior_proba := np_median ?ps, self_accuracy := acc\<rparr>"
  let ?ev = "\<lparr>ev_accuracy = acc, ev_f1 = f, ev_precision = precision, ev_recall = recall,
              ev_cf = cf, ev_posterior_proba = np_median ?ps\<rparr>"
  show ?thesis
    unfolding run using med
    by (intro exI [of _ ?s] exI [of _ ?ev]) simp
qed

theorem evaluate_model_posterior_is_median_witness:
  "\<exists>self' ev.
     evaluate_model \<lparr>self_accuracy = Finite 0, self_posterior_proba = Finite 0\<rparr> threshold_clf
       [[2 / 10], [7 / 10], [4 / 10]] [1] True = Inr (self', ev)
     \<and> ev_posterior_proba ev = Finite (7 / 10)"
proof -
  let ?X = "[[2 / 10], [7 / 10], [4 / 10 :: real]]"
  let ?pred = "[1, 0, 1 :: int]"
  let ?probs = "[[2 / 10, 8 / 10], [7 / 10, 3 / 10], [4 / 10, 6 / 10 :: real]]"
  have h1: "predict threshold_clf ?X = Inr ?pred" by (simp add: threshold_clf_def)
  have h2: "predict_proba threshold_clf ?X = Inr ?probs" by (simp add: threshold_clf_def)
  have h3: "length ?pred = length ?X" by simp
  have h4: "length ?probs = length ?X" by simp
  have h5: "\<forall>i < length ?X. ?pred ! i \<in> {0, 1} \<and> 2 \<le> length (?probs ! i)"
    by (simp add: All_less_Suc nth_Cons')
  have h6: "(1 :: int) \<in> {0, 1}" by simp
  have h7: "?X \<noteq> []" by simp
  from evaluate_model_posterior_is_median [OF h1 h2 h3 h4 h5 h6 h7,
      where self = "\<lparr>self_accuracy = Finite 0, self_posterior_proba = Finite 0\<rparr>"]
  obtain self' ev where
    r: "evaluate_model \<lparr>self_accuracy = Finite 0, self_posterior_proba = Finite 0\<rparr> threshold_clf
          ?X [1] True = Inr (self', ev)"
    and m: "ev_posterior_proba ev = np_median (map (\<lambda>i. ?probs ! i ! nat (?pred ! i)) [0..<length ?X])"
    by (elim exE conjE) (rule that, assumption+)
  have "map (\<lambda>i. ?probs ! i ! nat (?pred ! i)) [0..<length ?X] = [8 / 10, 7 / 10, 6 / 10]"
    by (simp add: upt_rec)
  then have "ev_posterior_proba ev = Finite (7 / 10)"
    unfolding m by (simp add: np_median_def)
  with r show ?thesis by blast
qed

text \<open>
  C5. In the same setting, the label vector that the metrics are computed against,
  \<open>y_test * X_test.shape[0]\<close>, is the single held-out label repeated once per test row, so
  it has as many entries as there are predictions. The accuracy, F1, precision, recall and
  confusion tally of the result are those of this vector and the predictions: the accuracy
  is the fraction of rows predicted as the held-out label; with \<open>tp\<close> the number of rows
  predicted 1 when the held-out label is 1, precision is \<open>tp\<close> over the number of rows
  predicted 1, recall is \<open>tp\<close> over the number of rows whose label is 1, F1 is \<open>2 tp\<close> over
  the sum of these two counts, each 1 when its denominator is 0; and the confusion tally
  counts, for each pair of labels present, the rows with that label and that prediction.
\<close>

theorem evaluate_model_broadcasts_label:
  assumes "predict clf X_test = Inr y_pred" and "predict_proba clf X_test = Inr probabilities"
    and "length y_pred = length X_test" and "length probabilities = length X_test"
    and "\<forall>i < length X_test. y_pred ! i \<in> {0, 1} \<and> 2 \<le> length (probabilities ! i)"
    and "label \<in> {0, 1}" and "X_test \<noteq> []"
  shows "\<exists>self' ev.
           evaluate_model self clf X_test [label] True = Inr (self', ev)
         \<and> broadcast_labels [label] X_test = replicate (length X_test) label
         \<and> length (broadcast_labels [label] X_test) = length y_pred
         \<and> accuracy_score (broadcast_labels [label] X_test) y_pred = Inr (ev_accuracy ev)
         \<and> f1_score (broadcast_labels [label] X_test) y_pred 1 = Inr (ev_f1 ev)
         \<and> precision_recall_fscore (broadcast_labels [label] X_test) y_pred 1
             = Inr (ev_precision ev, ev_recall ev, ev_f1 ev)
         \<and> confusion_matrix_ravel (broadcast_labels [label] X_test) y_pred = Inr (ev_cf ev)
         \<and> self_accuracy self' = ev_accuracy ev
         \<and> ev_accuracy ev
             = Finite (real (card {i. i < length X_test \<and> y_pred ! i = label})
                         / real (length X_test))
         \<and> ev_precision ev
             = (if card {i. i < length X_test \<and> y_pred ! i = 1} = 0 then 1
                else real (card {i. i < length X_test \<and> label = 1 \<and> y_pred ! i = 1})
                       / real (card {i. i < length X_test \<and> y_pred ! i = 1}))
         \<and> ev_recall ev
             = (if card {i. i < length X_test \<and> label = 1} = 0 then 1
                else real (card {i. i < length X_test \<and> label = 1 \<and> y_pred ! i = 1})
                       / real (card {i. i < length X_test \<and> label = 1}))
         \<and> ev_f1 ev
             = (if card {i. i < length X_test \<and> label = 1}
                     + card {i. i < length X_test \<and> y_pred ! i = 1} = 0 then 1
                else real (2 * card {i. i < length X_test \<and> label = 1 \<and> y_pred ! i = 1})
                       / real (card {i. i < length X_test \<and> label = 1}
                               + card {i. i < length X_test \<and> y_pred ! i = 1}))
         \<and> ev_cf ev
             = concat (map (\<lambda>a. map (\<lambda>b. card {i. i < length X_test \<and> label = a \<and> y_pred ! i = b})
                                    (sorted_list_of_set (insert label (set y_pred))))
                         (sorted_list_of_set (insert label (set y_pred))))"
proof -
  let ?n = "length X_test"
  let ?ys = "replicate ?n label"
  let ?ps = "map (\<lambda>i. probabilities ! i ! nat (y_pred ! i)) [0..<?n]"
  let ?tp = "card {i. i < ?n \<and> label = 1 \<and> y_pred ! i = 1}"
  let ?pred = "card {i. i < ?n \<and> y_pred ! i = 1}"
  let ?true = "card {i. i < ?n \<and> label = 1}"
  let ?labels = "sorted_list_of_set (insert label (set y_pred))"
  from evaluate_model_binary [OF assms, of self] obtain acc precision recall f cf where
    acc: "accuracy_score ?ys y_pred = Inr acc"
    and prfeq: "precision_recall_fscore ?ys y_pred 1 = Inr (precision, recall, f)"
    and f1: "f1_score ?ys y_pred 1 = Inr f"
    and cf: "confusion_matrix_ravel ?ys y_pred = Inr cf"
    and run: "evaluate_model self clf X_test [label] True
             = Inr (self\<lparr>self_posterior_proba := np_median ?ps, self_accuracy := acc\<rparr>,
                    \<lparr>ev_accuracy = acc, ev_f1 = f, ev_precision = precision, ev_recall = recall,
                     ev_cf = cf, ev_posterior_proba = np_median ?ps\<rparr>)"
    by blast
  have yp: "set y_pred \<subseteq> {0, 1}"
    using assms(3,5) by (auto simp: in_set_conv_nth)
  have ys: "set ?ys \<subseteq> {0, 1}" using assms(6) by auto
  have len: "length ?ys = length y_pred" using assms(3) by simp
  have ne: "?ys \<noteq> []" using assms(7) by simp
  have pos: "0 < ?n" using assms(7) by simp
  have chk: "check_targets ?ys y_pred = Inr ()"
    by (rule check_targets_ok [OF len ne])
  have chkb: "check_binary_targets ?ys y_pred = Inr ()"
    by (rule check_binary_targets_ok [OF len ne ys yp])
  have c_eq: "length (filter (\<lambda>(t, p). t = p) (zip ?ys y_pred)) = card {i. i < ?n \<and> y_pred ! i = label}"
  proof -
    have "length (filter (\<lambda>(t, p). t = p) (zip ?ys y_pred)) = card {i. i < ?n \<and> label = y_pred ! i}"
      by (rule count_pairs_replicate [OF assms(3)])
    also have "{i. i < ?n \<and> label = y_pred ! i} = {i. i < ?n \<and> y_pred ! i = label}" by auto
    finally show ?thesis .
  qed
  have c_tp: "length (filter (\<lambda>(t, p). t = 1 \<and> p = 1) (zip ?ys y_pred)) = ?tp"
    by (rule count_pairs_replicate [OF assms(3)])
  have c_pred: "length (filter (\<lambda>p. p = 1) y_pred) = ?pred"
    by (rule count_predictions [OF assms(3)])
  have c_true: "length (filter (\<lambda>t. t = 1) ?ys) = ?true"
    by (rule count_replicate)
  have c_cell: "\<And>a b. length (filter (\<lambda>(t, p). t = a \<and> p = b) (zip ?ys y_pred))
                  = card {i. i < ?n \<and> label = a \<and> y_pred ! i = b}"
    by (rule count_pairs_replicate [OF assms(3)])
  have lab: "sort (remdups (?ys @ y_pred)) = ?labels"
    by (rule labels_of_broadcast [OF pos])
  have v_acc: "acc = Finite (real (card {i. i < ?n \<and> y_pred ! i = label}) / real ?n)"
    using acc by (simp add: accuracy_score_def chk c_eq)
  have "Inr (precision, recall, f)
          = (Inr (prf_divide ?tp ?pred 1, prf_divide ?tp ?true 1, prf_divide (2 * ?tp) (?true + ?pred) 1)
               :: py_error + real \<times> real \<times> real)"
    using prfeq by (simp add: precision_recall_fscore_def chkb Let_def c_tp c_pred c_true)
  then have v_p: "precision = prf_divide ?tp ?pred 1" and v_r: "recall = prf_divide ?tp ?true 1"
    and v_f: "f = prf_divide (2 * ?tp) (?true + ?pred) 1"
    by simp_all
  have v_cf: "cf = concat (map (\<lambda>a. map (\<lambda>b. card {i. i < ?n \<and> label = a \<and> y_pred ! i = b}) ?labels)
                         ?labels)"
    using cf by (simp add: confusion_matrix_ravel_def chk Let_def lab c_cell)
  have b: "broadcast_labels [label] X_test = ?ys" by (rule broadcast_single_label)
  let ?s = "self\<lparr>self_posterior_proba := np_median ?ps, self_accuracy := acc\<rparr>"
  let ?ev = "\<lparr>ev_accuracy = acc, ev_f1 = f, ev_precision = precision, ev_recall = recall,
              ev_cf = cf, ev_posterior_proba = np_median ?ps\<rparr>"
  have w_p: "precision = (if ?pred = 0 then 1 else real ?tp / real ?pred)"
    unfolding v_p prf_divide_def by simp
  have w_r: "recall = (if ?true = 0 then 1 else real ?tp / real ?true)"
    unfolding v_r prf_divide_def by simp
  have w_f: "f = (if ?true + ?pred = 0 then 1 else real (2 * ?tp) / real (?true + ?pred))"
    unfolding v_f prf_divide_def by simp
  have parts: "broadcast_labels [label] X_test = ?ys"
    "length (broadcast_labels [label] X_test) = length y_pred"
    "accuracy_score (broadcast_labels [label] X_test) y_pred = Inr acc"
    "f1_score (broadcast_labels [label] X_test) y_pred 1 = Inr f"
    "precision_recall_fscore (broadcast_labels [label] X_test) y_pred 1 = Inr (precision, recall, f)"
    "confusion_matrix_ravel (broadcast_labels [label] X_test) y_pred = Inr cf"
    unfolding b using acc prfeq f1 cf len by simp_all
  show ?thesis
    unfolding run
  proof (intro exI [of _ ?s] exI [of _ ?ev] conjI)
    show "accuracy_score (broadcast_labels [label] X_test) y_pred = Inr (ev_accuracy ?ev)"
      by (simp add: parts(3))
    show "f1_score (broadcast_labels [label] X_test) y_pred 1 = Inr (ev_f1 ?ev)"
      by (simp add: parts(4))
    show "precision_recall_fscore (broadcast_labels [label] X_test) y_pred 1
            = Inr (ev_precision ?ev, ev_recall ?ev, ev_f1 ?ev)"
      by (simp add: parts(5))
    show "confusion_matrix_ravel (broadcast_labels [label] X_test) y_pred = Inr (ev_cf ?ev)"
      by (simp add: parts(6))
    show "self_accuracy ?s = ev_accuracy ?ev" by simp
    show "ev_accuracy ?ev = Finite (real (card {i. i < ?n \<and> y_pred ! i = label}) / real ?n)"
      using v_acc by simp
    show "ev_precision ?ev = (if ?pred = 0 then 1 else real ?tp / real ?pred)"
      using w_p by simp
    show "ev_recall ?ev = (if ?true = 0 then 1 else real ?tp / real ?true)"
      using w_r by simp
    show "ev_f1 ?ev = (if ?true + ?pred = 0 then 1 else real (2 * ?tp) / real (?true + ?pred))"
      using w_f by simp
    show "ev_cf ?ev = concat (map (\<lambda>a. map (\<lambda>b. card {i. i < ?n \<and> label = a \<and> y_pred ! i = b})
                                          ?labels) ?labels)"
      using v_cf by simp
  qed (rule refl, rule parts(1), rule parts(2))
qed

theorem evaluate_model_broadcasts_label_witness:
  "\<exists>self' ev.
     evaluate_model \<lparr>self_accuracy = Finite 0, self_posterior_proba = Finite 0\<rparr> threshold_clf
       [[2 / 10], [7 / 10], [4 / 10]] [1] True = Inr (self', ev)
     \<and> broadcast_labels [1] [[2 / 10], [7 / 10], [4 / 10]] = [1, 1, 1]
     \<and> ev_accuracy ev = Finite (2 / 3)
     \<and> ev_precision ev = 1 \<and> ev_recall ev = 2 / 3 \<and> ev_f1 ev = 4 / 5
     \<and> ev_cf ev = [0, 0, 1, 2]"
proof -
  let ?X = "[[2 / 10], [7 / 10], [4 / 10 :: real]]"
  let ?pred = "[1, 0, 1 :: int]"
  let ?probs = "[[2 / 10, 8 / 10], [7 / 10, 3 / 10], [4 / 10, 6 / 10 :: real]]"
  have h1: "predict threshold_clf ?X = Inr ?pred" by (simp add: threshold_clf_def)
  have h2: "predict_proba threshold_clf ?X = Inr ?probs" by (simp add: threshold_clf_def)
  have h3: "length ?pred = length ?X" by simp
  have h4: "length ?probs = length ?X" by simp
  have h5: "\<forall>i < length ?X. ?pred ! i \<in> {0, 1} \<and> 2 \<le> length (?probs ! i)"
    by (simp add: All_less_Suc nth_Cons')
  have h6: "(1 :: int) \<in> {0, 1}" by simp
  have h7: "?X \<noteq> []" by simp
  from evaluate_model_broadcasts_label [OF h1 h2 h3 h4 h5 h6 h7,
      where self = "\<lparr>self_accuracy = Finite 0, self_posterior_proba = Finite 0\<rparr>"]
  obtain self' ev where
    r: "evaluate_model \<lparr>self_accuracy = Finite 0, self_posterior_proba = Finite 0\<rparr> threshold_clf
          ?X [1] True = Inr (self', ev)"
    and b: "broadcast_labels [1] ?X = replicate (length ?X) 1"
    and a: "accuracy_score (broadcast_labels [1] ?X) ?pred = Inr (ev_accuracy ev)"
    and p: "precision_recall_fscore (broadcast_labels [1] ?X) ?pred 1
              = Inr (ev_precision ev, ev_recall ev, ev_f1 ev)"
    and c: "confusion_matrix_ravel (broadcast_labels [1] ?X) ?pred = Inr (ev_cf ev)"
    by (elim exE conjE) (rule that, assumption+)
  have rep: "replicate (length ?X) (1 :: int) = [1, 1, 1]" by (simp add: numeral_3_eq_3)
  have b': "broadcast_labels [1] ?X = [1, 1, 1]" unfolding b rep ..
  from a have va: "ev_accuracy ev = Finite (2 / 3)"
    unfolding b' by (simp add: accuracy_score_def check_targets_def)
  from p have vp: "ev_precision ev = 1" and vr: "ev_recall ev = 2 / 3" and vf: "ev_f1 ev = 4 / 5"
    unfolding b'
    by (simp_all add: precision_recall_fscore_def check_binary_targets_def check_targets_def
        prf_divide_def)
  have ec: "confusion_matrix_ravel [1, 1, 1] ?pred = Inr [0, 0, 1, 2]"
    by (simp add: confusion_matrix_ravel_def check_targets_def)
  from c [unfolded b' ec] have vc: "ev_cf ev = [0, 0, 1, 2]" by simp
  from r b' va vp vr vf vc show ?thesis by blast
qed

section \<open>Properties of the run\<close>

lemma enumerate_snoc: "enumerate k (xs @ [x]) = enumerate k xs @ [(k + length xs, x)]"
  by (simp add: enumerate_eq_zip add.assoc)

lemma indices_of_filter:
  "map fst (filter (\<lambda>(i, x). P x) (enumerate 0 xs)) = filter (\<lambda>i. P (xs ! i)) [0..<length xs]"
proof (induction xs rule: rev_induct)
  case Nil
  then show ?case by simp
next
  case (snoc x xs)
  have "filter (\<lambda>i. P ((xs @ [x]) ! i)) [0..<length xs] = filter (\<lambda>i. P (xs ! i)) [0..<length xs]"
    by (intro filter_cong) (simp_all add: nth_append)
  with snoc show ?case by (simp add: enumerate_snoc)
qed

lemma test_indices_selector:
  assumes "test_document \<noteq> []"
  shows "test_indices target test_document filenames authors
           = filter (\<lambda>i. py_in test_document (filenames ! i)) [0..<length filenames]"
  using assms indices_of_filter [of "py_in test_document" filenames]
  by (simp add: test_indices_def)

lemma test_indices_all:
  assumes "length authors = length filenames"
  shows "test_indices target [] filenames authors
           = filter (\<lambda>i. py_rstrip (authors ! i) = target) [0..<length filenames]"
proof -
  have eq: "(\<lambda>(i, filename, author). py_rstrip author = target)
          = (\<lambda>(i, x). py_rstrip (snd x) = target)"
    by auto
  have "test_indices target [] filenames authors
          = map fst (filter (\<lambda>(i, x). py_rstrip (snd x) = target)
                       (enumerate 0 (zip filenames authors)))"
    unfolding test_indices_def eq by simp
  also have "\<dots> = filter (\<lambda>i. py_rstrip (snd (zip filenames authors ! i)) = target)
               [0..<length (zip filenames authors)]"
    by (rule indices_of_filter)
  also have "\<dots> = filter (\<lambda>i. py_rstrip (authors ! i) = target) [0..<length filenames]"
    using assms by (intro filter_cong) simp_all
  finally show ?thesis .
qed

lemma length_filter_indices:
  "length (filter (\<lambda>i. P (xs ! i)) [0..<length xs]) = length (filter P xs)"
proof -
  have "length (filter (\<lambda>i. P (xs ! i)) (map (\<lambda>i. i) [0..<length xs]))
          = card {i. i < length xs \<and> P (xs ! i)}"
    by (rule length_filter_map_upt)
  then show ?thesis by (simp add: length_filter_conv_card)
qed

lemma filter_index_eq: "filter (\<lambda>i. i = k) [0..<n] = (if k < n then [k] else [])"
  by (induction n) auto

lemma filter_single_index:
  assumes "k < n" and "\<forall>i < n. Q i \<longleftrightarrow> i = k"
  shows "filter Q [0..<n] = [k]"
proof -
  have "filter Q [0..<n] = filter (\<lambda>i. i = k) [0..<n]"
    using assms(2) by (intro filter_cong) simp_all
  also have "\<dots> = [k]"
    using assms(1) by (simp only: filter_index_eq if_True)
  finally show ?thesis .
qed

lemma run_unfold:
  assumes "load_dataset test_document = Inr (documents, authors, names)"
    and "documents \<noteq> []"
    and "process_documents documents (map (\<lambda>f. f @ ''_0'') names) = Inr processed_documents"
  shows "run load_dataset process_documents process_single_document target test_document
             save_results_flag test_genre state
           = run_units
               (\<lambda>i. process_single_document (int i) documents
                      (if test_genre
                       then map (\<lambda>genre. if py_rstrip genre = ''Trattato'' then 1 else 0)
                              (map (\<lambda>filename. if py_in ''epistola'' (py_lower filename)
                                               then ''Trattato'' else ''Epistola'')
                                 (map (\<lambda>f. f @ ''_0'') names))
                       else map (\<lambda>author. if py_rstrip author = target then 1 else 0) authors)
                      processed_documents (map (\<lambda>f. f @ ''_0'') names) target save_results_flag)
               (test_indices target test_document (map (\<lambda>f. f @ ''_0'') names) authors) state"
  using assms by (simp add: run_def get_processed_documents_def Let_def)

text \<open>
  C4, as stated, fails: the selector \<open>A - x1\<close> is the id of the first document, yet the
  run processes two units, because \<open>A - x10_0\<close> contains it as well.
\<close>

theorem run_document_selector_counterexample:
  "run (stored_corpus ([''d1'', ''d2'', ''d3''], [''A'', ''B'', ''A''],
                       [''A - x1'', ''B - y'', ''A - x10'']))
       annotate_by_name log_unit ''A'' ''A - x1'' True False []
     = Inr [''A - x1_0'', ''A - x10_0'']"
  by code_simp

text \<open>
  C4, amended. On a loaded, non-empty corpus (authors and filenames parallel, annotation
  succeeding) \<open>run\<close> processes exactly the units \<open>test_indices\<close>, in order. With an empty
  selector these are the positions of the documents whose author is the target: one unit
  per document of the target author. With a selector they are the positions of the
  filenames (suffixed with \<open>_0\<close>) that contain the selector; this is the single document \<open>k\<close>
  when \<open>k\<close> is the only such position.
\<close>

theorem run_selects_units:
  assumes "load_dataset test_document = Inr (documents, authors, names)"
    and "length authors = length names" and "documents \<noteq> []"
    and "process_documents documents (map (\<lambda>f. f @ ''_0'') names) = Inr processed_documents"
  shows "run load_dataset process_documents process_single_document target test_document
             save_results_flag test_genre state
           = run_units
               (\<lambda>i. process_single_document (int i) documents
                      (if test_genre
                       then map (\<lambda>genre. if py_rstrip genre = ''Trattato'' then 1 else 0)
                              (map (\<lambda>filename. if py_in ''epistola'' (py_lower filename)
                                               then ''Trattato'' else ''Epistola'')
                                 (map (\<lambda>f. f @ ''_0'') names))
                       else map (\<lambda>author. if py_rstrip author = target then 1 else 0) authors)
                      processed_documents (map (\<lambda>f. f @ ''_0'') names) target save_results_flag)
               (test_indices target test_document (map (\<lambda>f. f @ ''_0'') names) authors) state
       \<and> (test_document = [] \<longrightarrow>
            test_indices target test_document (map (\<lambda>f. f @ ''_0'') names) authors
              = filter (\<lambda>i. py_rstrip (authors ! i) = target) [0..<length names]
            \<and> length (test_indices target test_document (map (\<lambda>f. f @ ''_0'') names) authors)
              = length (filter (\<lambda>author. py_rstrip author = target) authors))
       \<and> (test_document \<noteq> [] \<longrightarrow>
            test_indices target test_document (map (\<lambda>f. f @ ''_0'') names) authors
              = filter (\<lambda>i. py_in test_document (names ! i @ ''_0'')) [0..<length names])
       \<and> (test_document \<noteq> [] \<and> k < length names
            \<and> (\<forall>i < length names. py_in test_document (names ! i @ ''_0'') \<longleftrightarrow> i = k) \<longrightarrow>
            test_indices target test_document (map (\<lambda>f. f @ ''_0'') names) authors = [k])"
proof -
  let ?filenames = "map (\<lambda>f. f @ ''_0'') names"
  have lf: "length ?filenames = length names" by simp
  have a: "run load_dataset process_documents process_single_document target test_document
             save_results_flag test_genre state
           = run_units
               (\<lambda>i. process_single_document (int i) documents
                      (if test_genre
                       then map (\<lambda>genre. if py_rstrip genre = ''Trattato'' then 1 else 0)
                              (map (\<lambda>filename. if py_in ''epistola'' (py_lower filename)
                                               then ''Trattato'' else ''Epistola'')
                                 (map (\<lambda>f. f @ ''_0'') names))
                       else map (\<lambda>author. if py_rstrip author = target then 1 else 0) authors)
                      processed_documents ?filenames target save_results_flag)
               (test_indices target test_document ?filenames authors) state"
    by (rule run_unfold [where load_dataset = load_dataset and process_documents = process_documents
        and test_document = test_document, OF assms(1) assms(3) assms(4)])
  have sel: "test_document \<noteq> [] \<Longrightarrow>
            test_indices target test_document ?filenames authors
              = filter (\<lambda>i. py_in test_document (names ! i @ ''_0'')) [0..<length names]"
  proof -
    assume ne: "test_document \<noteq> []"
    have "test_indices target test_document ?filenames authors
            = filter (\<lambda>i. py_in test_document (?filenames ! i)) [0..<length ?filenames]"
      by (rule test_indices_selector [OF ne])
    also have "\<dots> = filter (\<lambda>i. py_in test_document (names ! i @ ''_0'')) [0..<length names]"
      by (intro filter_cong) simp_all
    finally show ?thesis .
  qed
  have b: "test_document = [] \<longrightarrow>
            test_indices target test_document ?filenames authors
              = filter (\<lambda>i. py_rstrip (authors ! i) = target) [0..<length names]
            \<and> length (test_indices target test_document ?filenames authors)
              = length (filter (\<lambda>author. py_rstrip author = target) authors)"
  proof
    assume e: "test_document = []"
    have la: "length authors = length ?filenames" using assms(2) by simp
    have t: "test_indices target test_document ?filenames authors
              = filter (\<lambda>i. py_rstrip (authors ! i) = target) [0..<length names]"
      unfolding e using test_indices_all [OF la, of target] by simp
    have "length (filter (\<lambda>i. py_rstrip (authors ! i) = target) [0..<length authors])
            = length (filter (\<lambda>author. py_rstrip author = target) authors)"
      by (rule length_filter_indices)
    with t assms(2)
    show "test_indices target test_document ?filenames authors
              = filter (\<lambda>i. py_rstrip (authors ! i) = target) [0..<length names]
            \<and> length (test_indices target test_document ?filenames authors)
              = length (filter (\<lambda>author. py_rstrip author = target) authors)"
      by simp
  qed
  have c: "test_document \<noteq> [] \<longrightarrow>
            test_indices target test_document ?filenames authors
              = filter (\<lambda>i. py_in test_document (names ! i @ ''_0'')) [0..<length names]"
    using sel by blast
  have d: "test_document \<noteq> [] \<and> k < length names
            \<and> (\<forall>i < length names. py_in test_document (names ! i @ ''_0'') \<longleftrightarrow> i = k) \<longrightarrow>
            test_indices target test_document ?filenames authors = [k]"
  proof
    assume h: "test_document \<noteq> [] \<and> k < length names
            \<and> (\<forall>i < length names. py_in test_document (names ! i @ ''_0'') \<longleftrightarrow> i = k)"
    then have ne: "test_document \<noteq> []" and k: "k < length names"
      and u: "\<forall>i < length names. py_in test_document (names ! i @ ''_0'') \<longleftrightarrow> i = k"
      by simp_all
    show "test_indices target test_document ?filenames authors = [k]"
      unfolding sel [OF ne] by (rule filter_single_index [OF k u])
  qed
  from a b c d show ?thesis by (intro conjI)
qed

theorem run_selects_units_witness:
  "length (test_indices ''A'' [] [''A - x1_0'', ''B - y_0'', ''A - x10_0''] [''A'', ''B '', ''A ''])
     = 2
   \<and> test_indices ''A'' ''B - y'' [''A - x1_0'', ''B - y_0'', ''A - x10_0''] [''A'', ''B '', ''A '']
     = [1]
   \<and> run (stored_corpus ([''d1'', ''d2'', ''d3''], [''A'', ''B '', ''A ''],
                          [''A - x1'', ''B - y'', ''A - x10'']))
        annotate_by_name log_unit ''A'' [] True False []
     = Inr [''A - x1_0'', ''A - x10_0'']"
proof -
  let ?docs = "[''d1'', ''d2'', ''d3'']"
  let ?authors = "[''A'', ''B '', ''A '']"
  let ?names = "[''A - x1'', ''B - y'', ''A - x10'']"
  let ?load = "stored_corpus (?docs, ?authors, ?names)"
  have h1: "\<And>sel. ?load sel = Inr (?docs, ?authors, ?names)" by (simp add: stored_corpus_def)
  have h2: "length ?authors = length ?names" by simp
  have h3: "?docs \<noteq> []" by simp
  have h4: "annotate_by_name ?docs (map (\<lambda>f. f @ ''_0'') ?names)
              = Inr (map_of (zip (map (\<lambda>f. f @ ''_0'') ?names) ?docs))"
    by (simp only: annotate_by_name_def)
  note t1 = run_selects_units [where load_dataset = ?load and process_documents = annotate_by_name
      and test_document = "[]" and target = "''A''" and process_single_document = log_unit
      and save_results_flag = True and test_genre = False and state = "[]" and k = 0,
      OF h1 h2 h3 h4]
  note t2 = run_selects_units [where load_dataset = ?load and process_documents = annotate_by_name
      and test_document = "''B - y''" and target = "''A''" and process_single_document = log_unit
      and save_results_flag = True and test_genre = False and state = "[]" and k = 1,
      OF h1 h2 h3 h4]
  have cnt: "length (filter (\<lambda>author. py_rstrip author = ''A'') ?authors) = 2"
    by (simp add: py_rstrip_def py_isspace_def)
  from t1 [THEN conjunct2, THEN conjunct1, rule_format, OF refl, THEN conjunct2]
  have a: "length (test_indices ''A'' [] [''A - x1_0'', ''B - y_0'', ''A - x10_0''] ?authors) = 2"
    unfolding cnt by simp
  have only: "''B - y'' \<noteq> [] \<and> 1 < length ?names
                \<and> (\<forall>i < length ?names. py_in ''B - y'' (?names ! i @ ''_0'') \<longleftrightarrow> i = 1)"
    by (simp add: All_less_Suc nth_Cons' py_in_def py_find_def)
  from t2 [THEN conjunct2, THEN conjunct2, THEN conjunct2, rule_format, OF only]
  have b: "test_indices ''A'' ''B - y'' [''A - x1_0'', ''B - y_0'', ''A - x10_0''] ?authors = [1]"
    by simp
  have idx: "test_indices ''A'' [] (map (\<lambda>f. f @ ''_0'') ?names) ?authors = [0, 2]"
    by code_simp
  from t1 [THEN conjunct1]
  have c: "run ?load annotate_by_name log_unit ''A'' [] True False []
             = Inr [''A - x1_0'', ''A - x10_0'']"
    unfolding idx by (simp add: log_unit_def py_index_def)
  from a b c show ?thesis by (intro conjI)
qed

text \<open>
  C8, as stated, fails: with a selector that no filename contains, the run returns normally
  with nothing processed.
\<close>

theorem run_unresolved_selector_counterexample:
  "run (stored_corpus ([''d1'', ''d2'', ''d3''], [''A'', ''B'', ''A''],
                       [''A - x1'', ''B - y'', ''A - x10'']))
       annotate_by_name log_unit ''A'' ''C - z'' True False []
     = Inr []"
  by code_simp

text \<open>
  C8, amended. On a loaded, non-empty corpus, when no filename (suffixed with \<open>_0\<close>)
  contains the non-empty selector, \<open>run\<close> processes no unit and returns normally with the
  state unchanged; no error is raised.
\<close>

theorem run_unresolved_selector_completes:
  assumes "load_dataset test_document = Inr (documents, authors, names)"
    and "documents \<noteq> []"
    and "process_documents documents (map (\<lambda>f. f @ ''_0'') names) = Inr processed_documents"
    and "test_document \<noteq> []"
    and "\<forall>i < length names. \<not> py_in test_document (names ! i @ ''_0'')"
  shows "run load_dataset process_documents process_single_document target test_document
             save_results_flag test_genre state
           = Inr state"
proof -
  let ?filenames = "map (\<lambda>f. f @ ''_0'') names"
  have "test_indices target test_document ?filenames authors
          = filter (\<lambda>i. py_in test_document (?filenames ! i)) [0..<length ?filenames]"
    by (rule test_indices_selector [OF assms(4)])
  also have "\<dots> = []"
    using assms(5) by (simp add: filter_empty_conv)
  finally have none: "test_indices target test_document ?filenames authors = []" .
  show ?thesis
    unfolding run_unfold [where load_dataset = load_dataset and process_documents = process_documents
        and test_document = test_document, OF assms(1) assms(2) assms(3)] none by simp
qed

theorem run_unresolved_selector_completes_witness:
  "run (stored_corpus ([''d1'', ''d2''], [''A'', ''B''], [''A - x1'', ''B - y'']))
       annotate_by_name log_unit ''A'' ''A - missing'' True False [''earlier'']
     = Inr [''earlier'']"
proof -
  let ?docs = "[''d1'', ''d2'']"
  let ?authors = "[''A'', ''B'']"
  let ?names = "[''A - x1'', ''B - y'']"
  let ?load = "stored_corpus (?docs, ?authors, ?names)"
  have h1: "?load ''A - missing'' = Inr (?docs, ?authors, ?names)" by (simp add: stored_corpus_def)
  have h2: "?docs \<noteq> []" by simp
  have h3: "annotate_by_name ?docs (map (\<lambda>f. f @ ''_0'') ?names)
              = Inr (map_of (zip (map (\<lambda>f. f @ ''_0'') ?names) ?docs))"
    by (simp only: annotate_by_name_def)
  have h4: "''A - missing'' \<noteq> []" by simp
  have h5: "\<forall>i < length ?names. \<not> py_in ''A - missing'' (?names ! i @ ''_0'')"
    by (simp add: All_less_Suc nth_Cons' py_in_def py_find_def)
  show ?thesis
    by (rule run_unresolved_selector_completes [where load_dataset = ?load
          and process_documents = annotate_by_name, OF h1 h2 h3 h4 h5])
qed

section \<open>Properties of the report\<close>

lemma py_slice_twice: "py_slice_to (py_slice_to g (- 2)) (- 2) = take (length g - 4) g"
proof -
  have "py_slice_to g (- 2) = take (length g - 2) g"
    using py_slice_to_neg [of 2 g] by simp
  moreover have "py_slice_to (take (length g - 2) g) (- 2)
                   = take (length (take (length g - 2) g) - 2) (take (length g - 2) g)"
    using py_slice_to_neg [of 2 "take (length g - 2) g"] by simp
  ultimately show ?thesis by (simp add: min_def)
qed

text \<open>
  C10. When training and evaluation succeed and \<open>groups_test\<close> starts with \<open>g\<close>, the record
  appended by a saving run has as \<open>Document test\<close> the value \<open>g[:-2][:-2]\<close>, two characters
  being cut at the call site and two in \<open>save_results\<close>; that is \<open>g\<close> without its last four
  characters, and so differs from \<open>g\<close> whenever \<open>g\<close> is not empty.
\<close>

theorem saved_document_test_field:
  assumes "train_model X_dev y_dev groups_dev = Inr clf"
    and "evaluate_model self clf X_test y_test True = Inr (self', ev)"
    and "groups_test = g # others"
  shows "\<exists>row. train_evaluate_report train_model target True X_dev X_test y_dev y_test
                  groups_dev groups_test feature_idxs (self, csv_file)
               = Inr (self', csv_file @ (if csv_file = [] then [Header] else []) @ [Row row])
           \<and> col_document_test row = py_slice_to (py_slice_to g (- 2)) (- 2)
           \<and> col_document_test row = take (length g - 4) g
           \<and> (g \<noteq> [] \<longrightarrow> col_document_test row \<noteq> g)
           \<and> col_target_author row = target
           \<and> col_accuracy row = ev_accuracy ev
           \<and> col_proba row = ev_posterior_proba ev
           \<and> col_features row = map fst feature_idxs"
proof -
  let ?row = "\<lparr>col_target_author = target,
               col_document_test = py_slice_to (py_slice_to g (- 2)) (- 2),
               col_accuracy = ev_accuracy ev,
               col_proba = ev_posterior_proba ev,
               col_features = map fst feature_idxs\<rparr>"
  have g0: "py_index groups_test 0 = Inr g"
    using assms(3) by (simp add: py_index_def)
  have run: "train_evaluate_report train_model target True X_dev X_test y_dev y_test
                  groups_dev groups_test feature_idxs (self, csv_file)
               = Inr (self', csv_file @ (if csv_file = [] then [Header] else []) @ [Row ?row])"
    unfolding train_evaluate_report_def
    by (simp add: assms(1,2) g0 save_results_def Let_def)
  have short: "g \<noteq> [] \<longrightarrow> take (length g - 4) g \<noteq> g"
  proof
    assume "g \<noteq> []"
    then have "length (take (length g - 4) g) < length g" by simp
    then show "take (length g - 4) g \<noteq> g" by auto
  qed
  show ?thesis
    using run short by (intro exI [of _ ?row]) (simp add: py_slice_twice)
qed

theorem saved_document_test_field_witness:
  "\<exists>row. train_evaluate_report (fixed_model threshold_clf) ''Dante'' True [] [[2 / 10]] [] [1] []
            [''Dante - Monarchia_0_0''] [(''fw'', 0, 3)]
            (\<lparr>self_accuracy = Finite 0, self_posterior_proba = Finite 0\<rparr>, [])
          = Inr (\<lparr>self_accuracy = Finite 1, self_posterior_proba = Finite (4 / 5)\<rparr>,
                 [Header, Row row])
     \<and> col_document_test row = ''Dante - Monarchia''
     \<and> col_target_author row = ''Dante''"
proof -
  have h1: "fixed_model threshold_clf [] [] [] = Inr threshold_clf"
    by (simp add: fixed_model_def)
  have h2: "evaluate_model \<lparr>self_accuracy = Finite 0, self_posterior_proba = Finite 0\<rparr> threshold_clf
          [[2 / 10]] [1] True
        = Inr (\<lparr>self_accuracy = Finite 1, self_posterior_proba = Finite (4 / 5)\<rparr>,
               \<lparr>ev_accuracy = Finite 1, ev_f1 = 1, ev_precision = 1, ev_recall = 1, ev_cf = [1],
                ev_posterior_proba = Finite (4 / 5)\<rparr>)"
    by (simp add: evaluate_model_def threshold_clf_def predicted_class_probabilities_def
        py_index_def np_median_def accuracy_score_def f1_score_def precision_recall_fscore_def
        check_binary_targets_def prf_divide_def confusion_matrix_ravel_def
        broadcast_labels_def check_targets_def classification_report_def)
  have h3: "[''Dante - Monarchia_0_0''] = ''Dante - Monarchia_0_0'' # []" by simp
  from saved_document_test_field [where train_model = "fixed_model threshold_clf"
      and target = "''Dante''" and feature_idxs = "[(''fw'', 0, 3)]" and csv_file = "[]",
      OF h1 h2 h3]
  obtain row where
    r: "train_evaluate_report (fixed_model threshold_clf) ''Dante'' True [] [[2 / 10]] [] [1] []
            [''Dante - Monarchia_0_0''] [(''fw'', 0, 3)]
            (\<lparr>self_accuracy = Finite 0, self_posterior_proba = Finite 0\<rparr>, [])
          = Inr (\<lparr>self_accuracy = Finite 1, self_posterior_proba = Finite (4 / 5)\<rparr>,
                 [] @ (if [] = ([] :: string csv_line list) then [Header] else []) @ [Row row])"
    and d: "col_document_test row = take (length ''Dante - Monarchia_0_0'' - 4) ''Dante - Monarchia_0_0''"
    and t: "col_target_author row = ''Dante''"
    by (elim exE conjE) (rule that, assumption+)
  from r have r': "train_evaluate_report (fixed_model threshold_clf) ''Dante'' True [] [[2 / 10]] [] [1] []
            [''Dante - Monarchia_0_0''] [(''fw'', 0, 3)]
            (\<lparr>self_accuracy = Finite 0, self_posterior_proba = Finite 0\<rparr>, [])
          = Inr (\<lparr>self_accuracy = Finite 1, self_posterior_proba = Finite (4 / 5)\<rparr>,
                 [Header, Row row])"
    by simp
  from d have d': "col_document_test row = ''Dante - Monarchia''" by simp
  from r' d' t show ?thesis by blast
qed

end
